theory Spec2Isabelle
  imports Complex_Main "HOL-Library.Multiset" "HOL-Library.Sublist" "HOL-Library.Char_ord"
    "HOL-Library.List_Lexorder" "HOL-Library.Option_ord"
begin

section \<open>Chef ranker: scoring engine and monthly snapshots\<close>

text \<open>
  A shallow embedding of \<^verbatim>\<open>src/lib/scoring.ts\<close> (\<^verbatim>\<open>getWeights\<close>,
  \<^verbatim>\<open>calculateBreakdown\<close>, \<^verbatim>\<open>calculateTotalScore\<close>, \<^verbatim>\<open>recalculateAllScores\<close>,
  \<^verbatim>\<open>createMonthlySnapshot\<close>) and of the \<^verbatim>\<open>POST\<close> handler of
  \<^verbatim>\<open>src/app/api/snapshots/route.ts\<close>.

  Conventions of the model.
  \<^item> A JavaScript \<^verbatim>\<open>number\<close> is a rational (\<^typ>\<open>rat\<close>) where it can be fractional and an
    \<^typ>\<open>int\<close> where the column is \<^verbatim>\<open>INTEGER\<close>: there is no NaN and no infinity.
    Arithmetic is exact, but for the sum of the signal values, whose additions round to
    the nearest double as the source's do (cancellation there can change the sign of the
    sum). No theorem below rests on the exact value of a fractional product or quotient.
  \<^item> A \<^verbatim>\<open>Date\<close> is its time value, an \<^typ>\<open>int\<close> (milliseconds since the epoch).
  \<^item> \<^verbatim>\<open>null\<close> and \<^verbatim>\<open>undefined\<close> are \<^term>\<open>None\<close>.
  \<^item> A string is a list of code units, each below 256.
  \<^item> The database is a record of tables, each table a list of rows in the order in which
    \<^verbatim>\<open>findMany\<close> returns them; a failing Prisma call is a value \<open>Inl e\<close>.
  \<^item> The system clock is read once per operation and passed in as a value of type \<open>clock\<close>.
\<close>

subsection \<open>Rows\<close>

record accolade =
  a_type :: string
  a_detail :: "string option"
  a_year :: "int option"
  a_createdAt :: int

record careerEntry =
  c_isCurrent :: bool
  c_startYear :: "int option"
  c_endYear :: "int option"
  c_role :: string
  c_createdAt :: int

record publicSignal =
  s_platform :: string
  s_value :: "rat option"
  s_createdAt :: int

record peerStanding =
  p_type :: string
  p_createdAt :: int

text \<open>A chef row together with the relations that \<^verbatim>\<open>include\<close> loads.\<close>

record chef =
  chef_id :: string
  isArchived :: bool
  totalScore :: rat
  chef_rank :: "int option"
  yearsExperience :: "int option"
  accolades :: "accolade list"
  careerEntries :: "careerEntry list"
  publicSignals :: "publicSignal list"
  peerStandings :: "peerStanding list"

record scoreBreakdown =
  b_formalAccolades :: rat
  b_careerTrack :: rat
  b_publicSignals :: rat
  b_peerStanding :: rat

text \<open>
  The object that \<^verbatim>\<open>getWeights\<close> returns: the four properties that the interface
  \<^verbatim>\<open>ScoringWeights\<close> declares and, in \<open>w_others\<close>, every other own property with its value,
  in the order of creation.
\<close>

record scoringWeights =
  w_formalAccolades :: rat
  w_careerTrack :: rat
  w_publicSignals :: rat
  w_peerStanding :: rat
  w_others :: "(string \<times> rat) list"

record scoringWeightRow =
  sw_category :: string
  sw_weight :: rat

record monthlySnapshot =
  ms_id :: string
  ms_month :: string
  ms_publishedAt :: "int option"
  ms_notes :: "string option"

text \<open>
  A \<^verbatim>\<open>SnapshotEntry\<close> row. Its own primary key and \<^verbatim>\<open>createdAt\<close> are left out: no code
  modelled here reads them. The breakdown is stored as the record itself; the source stores
  its \<^verbatim>\<open>JSON.stringify\<close>.
\<close>

record snapshotEntry =
  e_snapshotId :: string
  e_chefId :: string
  e_rank :: int
  e_totalScore :: rat
  e_breakdown :: scoreBreakdown
  e_delta :: "int option"

record db =
  chefs :: "chef list"
  scoringWeights :: "scoringWeightRow list"
  monthlySnapshots :: "monthlySnapshot list"
  snapshotEntries :: "snapshotEntry list"

text \<open>
  What the \<^verbatim>\<open>Date\<close> calls of one operation return: \<open>clk_time\<close> is the time value of
  \<^verbatim>\<open>new Date()\<close>, \<open>clk_fullYear\<close> its \<^verbatim>\<open>getFullYear()\<close>, and \<open>clk_tenYearsAgo\<close> the time
  value after \<^verbatim>\<open>setFullYear(getFullYear() - 10)\<close>.
\<close>

record clock =
  clk_time :: int
  clk_fullYear :: int
  clk_tenYearsAgo :: int

datatype error = RecordNotFound | UniqueConstraint | NullConstraint

subsection \<open>Built-ins of the language\<close>

text \<open>\<^verbatim>\<open>Math.round\<close>: the nearest integer, a tie going up.\<close>

definition math_round :: "rat \<Rightarrow> rat" where
  "math_round x = of_int \<lfloor>x + 1 / 2\<rfloor>"

text \<open>
  The nearest double of a rational: 53 significant bits, a tie going to the even
  significand, the smallest exponent that of the subnormal numbers. A result beyond the
  largest finite double, which the source turns into an infinity, is left as it is.
\<close>

function bit_length :: "int \<Rightarrow> int" where
  "bit_length a = (if a \<le> 0 then 0 else 1 + bit_length (a div 2))"
  by pat_completeness auto
termination
  by (relation "measure nat") auto

definition pow2 :: "int \<Rightarrow> rat" where
  "pow2 e = (if 0 \<le> e then 2 ^ nat e else 1 / 2 ^ nat (- e))"

text \<open>For a positive \<open>x\<close>, the exponent \<open>e\<close> with \<open>pow2 e \<le> x < pow2 (e + 1)\<close>.\<close>

definition binary_exponent :: "rat \<Rightarrow> int" where
  "binary_exponent x =
     (let (a, b) = quotient_of x;
          k = bit_length a - bit_length b
      in if pow2 k \<le> x then k else k - 1)"

definition round_half_even :: "rat \<Rightarrow> int" where
  "round_half_even y =
     (let n = \<lfloor>y\<rfloor>; f = y - of_int n
      in if f < 1 / 2 then n else if 1 / 2 < f then n + 1 else if even n then n else n + 1)"

definition to_double :: "rat \<Rightarrow> rat" where
  "to_double x =
     (if x = 0 then 0
      else (let a = \<bar>x\<bar>;
                e = max (binary_exponent a) (- 1022);
                q = pow2 (e - 52)
            in sgn x * of_int (round_half_even (a / q)) * q))"

definition is_whitespace :: "char \<Rightarrow> bool" where
  "is_whitespace c = ((of_char c :: nat) \<in> {9, 10, 11, 12, 13, 32, 160})"

definition digit_value :: "char \<Rightarrow> nat option" where
  "digit_value c =
     (let n = (of_char c :: nat) in
      if 48 \<le> n \<and> n \<le> 57 then Some (n - 48)
      else if 97 \<le> n \<and> n \<le> 102 then Some (n - 87)
      else if 65 \<le> n \<and> n \<le> 70 then Some (n - 55)
      else None)"

definition is_radix_digit :: "nat \<Rightarrow> char \<Rightarrow> bool" where
  "is_radix_digit r c = (case digit_value c of None \<Rightarrow> False | Some v \<Rightarrow> v < r)"

text \<open>
  \<^verbatim>\<open>parseInt(s)\<close> with no radix: leading white space is skipped, then an optional sign, then
  an optional \<^verbatim>\<open>0x\<close> or \<^verbatim>\<open>0X\<close> that selects radix 16, then the longest run of digits.
  \<^term>\<open>None\<close> is NaN. The value is the exact integer (the source rounds it to a double,
  which changes no comparison with 2 or 3).
\<close>

definition parseInt :: "string \<Rightarrow> int option" where
  "parseInt s =
     (let s1 = dropWhile is_whitespace s;
          neg = (take 1 s1 = ''-'');
          s2 = (if take 1 s1 = ''-'' \<or> take 1 s1 = ''+'' then drop 1 s1 else s1);
          hex = (take 2 s2 = ''0x'' \<or> take 2 s2 = ''0X'');
          r = (if hex then 16 else 10);
          s3 = (if hex then drop 2 s2 else s2);
          z = takeWhile (is_radix_digit r) s3;
          n = foldl (\<lambda>acc c. acc * int r + int (the (digit_value c))) 0 z
      in if z = [] then None else Some (if neg then - n else n))"

definition to_lower :: "char \<Rightarrow> char" where
  "to_lower c =
     (let n = (of_char c :: nat) in if 65 \<le> n \<and> n \<le> 90 then char_of (n + 32) else c)"

fun str_includes :: "string \<Rightarrow> string \<Rightarrow> bool" where
  "str_includes pat [] = (pat = [])"
| "str_includes pat (c # s) = (prefix pat (c # s) \<or> str_includes pat s)"

definition line_terminator :: "char \<Rightarrow> bool" where
  "line_terminator c = ((of_char c :: nat) \<in> {10, 13})"

text \<open>\<^verbatim>\<open>.*owner\<close> at the start of \<open>s\<close>: the dot matches any character but a line terminator.\<close>

fun owner_follows :: "string \<Rightarrow> bool" where
  "owner_follows [] = False"
| "owner_follows (c # s) =
     (prefix ''owner'' (c # s) \<or> (\<not> line_terminator c \<and> owner_follows s))"

fun chef_owner :: "string \<Rightarrow> bool" where
  "chef_owner [] = False"
| "chef_owner (c # s) =
     ((prefix ''chef'' (c # s) \<and> owner_follows (drop 4 (c # s))) \<or> chef_owner s)"

text \<open>\<^verbatim>\<open>/chef.*owner|executive|head chef|chef de cuisine/i.test(role)\<close>\<close>

definition exec_role :: "string \<Rightarrow> bool" where
  "exec_role role =
     (let r = map to_lower role in
      chef_owner r \<or> str_includes ''executive'' r \<or> str_includes ''head chef'' r
        \<or> str_includes ''chef de cuisine'' r)"

text \<open>\<^verbatim>\<open>/^\d{4}-\d{2}$/.test(month)\<close>\<close>

definition is_digit :: "char \<Rightarrow> bool" where
  "is_digit c = (48 \<le> (of_char c :: nat) \<and> (of_char c :: nat) \<le> 57)"

definition month_format :: "string \<Rightarrow> bool" where
  "month_format m =
     (length m = 7 \<and> list_all is_digit (take 4 m) \<and> m ! 4 = CHR ''-''
        \<and> list_all is_digit (drop 5 m))"

subsection \<open>Weights\<close>

definition DEFAULT_WEIGHTS :: scoringWeights where
  "DEFAULT_WEIGHTS =
     \<lparr>w_formalAccolades = 35 / 100, w_careerTrack = 25 / 100,
      w_publicSignals = 15 / 100, w_peerStanding = 25 / 100, w_others = []\<rparr>"

text \<open>\<^verbatim>\<open>Object.keys(weights)\<close>: the own properties, the declared ones first.\<close>

definition declared_keys :: "string list" where
  "declared_keys = [''formalAccolades'', ''careerTrack'', ''publicSignals'', ''peerStanding'']"

definition own_keys :: "scoringWeights \<Rightarrow> string list" where
  "own_keys w = declared_keys @ map fst (w_others w)"

text \<open>The properties that every object inherits from \<^verbatim>\<open>Object.prototype\<close>.\<close>

definition inherited_names :: "string list" where
  "inherited_names =
     [''constructor'', ''__defineGetter__'', ''__defineSetter__'', ''hasOwnProperty'',
      ''__lookupGetter__'', ''__lookupSetter__'', ''isPrototypeOf'', ''propertyIsEnumerable'',
      ''toString'', ''valueOf'', ''__proto__'', ''toLocaleString'']"

text \<open>\<^verbatim>\<open>key in weights\<close>: true of an own property and of an inherited one.\<close>

definition has_property :: "string \<Rightarrow> scoringWeights \<Rightarrow> bool" where
  "has_property k w = (k \<in> set (own_keys w) \<or> k \<in> set inherited_names)"

fun set_property :: "string \<Rightarrow> rat \<Rightarrow> (string \<times> rat) list \<Rightarrow> (string \<times> rat) list" where
  "set_property k v [] = [(k, v)]"
| "set_property k v (p # ps) = (if fst p = k then (k, v) # ps else p # set_property k v ps)"

text \<open>
  \<^verbatim>\<open>weights[key] = value\<close> for a number: an own property is overwritten, any other name
  becomes a new own property, but for \<^verbatim>\<open>__proto__\<close>, whose inherited setter ignores a number.
\<close>

definition assign_property :: "string \<Rightarrow> rat \<Rightarrow> scoringWeights \<Rightarrow> scoringWeights" where
  "assign_property k v w =
     (if k = ''formalAccolades'' then w\<lparr>w_formalAccolades := v\<rparr>
      else if k = ''careerTrack'' then w\<lparr>w_careerTrack := v\<rparr>
      else if k = ''publicSignals'' then w\<lparr>w_publicSignals := v\<rparr>
      else if k = ''peerStanding'' then w\<lparr>w_peerStanding := v\<rparr>
      else if k = ''__proto__'' then w
      else w\<lparr>w_others := set_property k v (w_others w)\<rparr>)"

text \<open>One turn of the loop of \<^verbatim>\<open>getWeights\<close>.\<close>

definition set_weight :: "scoringWeightRow \<Rightarrow> scoringWeights \<Rightarrow> scoringWeights" where
  "set_weight row w =
     (if has_property (sw_category row) w
      then assign_property (sw_category row) (sw_weight row) w
      else w)"

definition getWeights :: "db \<Rightarrow> scoringWeights" where
  "getWeights d =
     (let rows = scoringWeights d in
      if length rows = 0 then DEFAULT_WEIGHTS else fold set_weight rows DEFAULT_WEIGHTS)"

subsection \<open>The breakdown\<close>

text \<open>\<^verbatim>\<open>parseInt(m.detail || "1")\<close>: a detail that is \<^verbatim>\<open>null\<close> or empty is falsy.\<close>

definition michelin_stars :: "accolade \<Rightarrow> int option" where
  "michelin_stars m =
     parseInt (case a_detail m of None \<Rightarrow> ''1'' | Some d \<Rightarrow> if d = [] then ''1'' else d)"

fun michelin_best :: "rat \<Rightarrow> accolade list \<Rightarrow> rat" where
  "michelin_best best [] = best"
| "michelin_best best (m # ms) =
     (let stars = michelin_stars m
      in if stars = Some 3 then michelin_best (max best 100) ms
         else if stars = Some 2 then michelin_best (max best 70) ms
         else michelin_best (max best 40) ms)"

definition scoreMichelinStars :: "accolade list \<Rightarrow> rat" where
  "scoreMichelinStars as =
     (let michelin = filter (\<lambda>a. a_type a = ''MICHELIN_STAR'') as in
      if length michelin = 0 then 0 else michelin_best 0 michelin)"

definition scoreAccoladeType :: "accolade list \<Rightarrow> string \<Rightarrow> rat \<Rightarrow> rat" where
  "scoreAccoladeType as ty maxScore = (if list_ex (\<lambda>a. a_type a = ty) as then maxScore else 0)"

definition cutoffYear :: "clock \<Rightarrow> int" where
  "cutoffYear now = clk_fullYear now - 10"

definition cutoffDate :: "clock \<Rightarrow> int" where
  "cutoffDate now = clk_tenYearsAgo now"

text \<open>A year that is \<^verbatim>\<open>null\<close> or 0 is falsy.\<close>

definition recentAccolades :: "clock \<Rightarrow> accolade list \<Rightarrow> accolade list" where
  "recentAccolades now as =
     filter (\<lambda>a. case a_year a of
                    None \<Rightarrow> cutoffDate now \<le> a_createdAt a
                  | Some y \<Rightarrow> if y = 0 then cutoffDate now \<le> a_createdAt a else cutoffYear now \<le> y) as"

definition year_in_window :: "clock \<Rightarrow> int option \<Rightarrow> bool" where
  "year_in_window now yo = (case yo of None \<Rightarrow> False | Some y \<Rightarrow> y \<noteq> 0 \<and> cutoffYear now \<le> y)"

definition recentCareer :: "clock \<Rightarrow> careerEntry list \<Rightarrow> careerEntry list" where
  "recentCareer now cs =
     filter (\<lambda>c. c_isCurrent c \<or> year_in_window now (c_startYear c)
                  \<or> year_in_window now (c_endYear c) \<or> cutoffDate now \<le> c_createdAt c) cs"

definition recentSignals :: "clock \<Rightarrow> publicSignal list \<Rightarrow> publicSignal list" where
  "recentSignals now ss = filter (\<lambda>s. cutoffDate now \<le> s_createdAt s) ss"

definition recentPeers :: "clock \<Rightarrow> peerStanding list \<Rightarrow> peerStanding list" where
  "recentPeers now ps = filter (\<lambda>p. cutoffDate now \<le> p_createdAt p) ps"

text \<open>
  \<^verbatim>\<open>reduce((sum, s) => sum + (s.value || 0), 0)\<close>: the additions are those of doubles, from
  left to right.
\<close>

definition totalSignalValue :: "publicSignal list \<Rightarrow> rat" where
  "totalSignalValue ss =
     foldl (\<lambda>sum s. to_double (sum + (case s_value s of None \<Rightarrow> 0 | Some v \<Rightarrow> v))) 0 ss"

definition formalAccoladesRaw :: "accolade list \<Rightarrow> rat" where
  "formalAccoladesRaw ra =
     (let michelinScore = scoreMichelinStars ra;
          jbScore = scoreAccoladeType ra ''JAMES_BEARD'' 80;
          w50Score = scoreAccoladeType ra ''WORLDS_50_BEST'' 90;
          bocuseScore = scoreAccoladeType ra ''BOCUSE_DOR'' 85;
          otherAccoladeScore = scoreAccoladeType ra ''OTHER'' 30
      in min 100 (max (max (max michelinScore jbScore) w50Score) bocuseScore
           + (if 1 < length ra then min 20 ((of_nat (length ra) - 1) * 5) else 0)
           + otherAccoladeScore * (3 / 10)))"

definition roleScore :: "careerEntry list \<Rightarrow> rat" where
  "roleScore rc =
     (let hasExecRole = list_ex (\<lambda>c. exec_role (c_role c)) rc
      in if hasExecRole then 30 else 15)"

definition careerTrackRaw :: "int option \<Rightarrow> careerEntry list \<Rightarrow> rat" where
  "careerTrackRaw ye rc =
     (let years = (case ye of None \<Rightarrow> 0 | Some y \<Rightarrow> y);
          yearScore = min 40 (of_int years * 2);
          positionCount = length rc;
          positionScore = min 30 (of_nat positionCount * 6)
      in min 100 (yearScore + positionScore + roleScore rc))"

definition publicSignalsRaw :: "publicSignal list \<Rightarrow> rat" where
  "publicSignalsRaw rs =
     (let signalCount = length rs
      in min 100 (of_nat signalCount * 15 + min 50 (totalSignalValue rs / 10000)))"

definition peerStandingRaw :: "peerStanding list \<Rightarrow> rat" where
  "peerStandingRaw rp =
     (let peerCount = length rp;
          mentored = length (filter (\<lambda>p. p_type p = ''MENTORED'') rp);
          collabs = length (filter (\<lambda>p. p_type p = ''COLLABORATION'') rp);
          endorsements = length (filter (\<lambda>p. p_type p = ''ENDORSEMENT'') rp)
      in min 100 (of_nat peerCount * 10 + of_nat mentored * 15 + of_nat collabs * 10
                    + of_nat endorsements * 12))"

definition round1 :: "rat \<Rightarrow> rat" where
  "round1 x = math_round (x * 10) / 10"

definition calculateBreakdown :: "clock \<Rightarrow> chef \<Rightarrow> scoreBreakdown" where
  "calculateBreakdown now c =
     \<lparr>b_formalAccolades = round1 (formalAccoladesRaw (recentAccolades now (accolades c))),
      b_careerTrack = round1 (careerTrackRaw (yearsExperience c) (recentCareer now (careerEntries c))),
      b_publicSignals = round1 (publicSignalsRaw (recentSignals now (publicSignals c))),
      b_peerStanding = round1 (peerStandingRaw (recentPeers now (peerStandings c)))\<rparr>"

definition calculateTotalScore :: "scoreBreakdown \<Rightarrow> scoringWeights \<Rightarrow> rat" where
  "calculateTotalScore b w =
     (let total = b_formalAccolades b * w_formalAccolades w + b_careerTrack b * w_careerTrack w
                    + b_publicSignals b * w_publicSignals w + b_peerStanding b * w_peerStanding w
      in math_round (total * 10) / 10)"

subsection \<open>Recalculating all scores\<close>

record scored =
  sc_id :: string
  sc_total :: rat
  sc_breakdown :: scoreBreakdown

text \<open>\<^verbatim>\<open>prisma.chef.findMany({ where: { isArchived: false } })\<close>\<close>

definition active_chefs :: "db \<Rightarrow> chef list" where
  "active_chefs d = filter (\<lambda>c. \<not> isArchived c) (chefs d)"

definition score_chef :: "clock \<Rightarrow> scoringWeights \<Rightarrow> chef \<Rightarrow> scored" where
  "score_chef now weights c =
     (let breakdown = calculateBreakdown now c;
          total = calculateTotalScore breakdown weights
      in \<lparr>sc_id = chef_id c, sc_total = total, sc_breakdown = breakdown\<rparr>)"

text \<open>
  \<^verbatim>\<open>prisma.chef.update({ where: { id }, data: { totalScore, rank } })\<close>: it throws when no
  row has the id.
\<close>

definition chef_update :: "string \<Rightarrow> rat \<Rightarrow> int \<Rightarrow> chef list \<Rightarrow> error + chef list" where
  "chef_update cid score r cs =
     (if cid \<in> set (map chef_id cs)
      then Inr (map (\<lambda>c. if chef_id c = cid then c\<lparr>totalScore := score, chef_rank := Some r\<rparr> else c) cs)
      else Inl RecordNotFound)"

text \<open>The loop \<^verbatim>\<open>for (let i = 0; i < scored.length; i++)\<close>, from index \<open>i\<close> on.\<close>

fun persist_ranks :: "nat \<Rightarrow> scored list \<Rightarrow> chef list \<Rightarrow> error + chef list" where
  "persist_ranks i [] cs = Inr cs"
| "persist_ranks i (s # ss) cs =
     (case chef_update (sc_id s) (sc_total s) (int i + 1) cs of
        Inl e \<Rightarrow> Inl e
      | Inr cs' \<Rightarrow> persist_ranks (Suc i) ss cs')"

text \<open>
  \<^verbatim>\<open>scored.sort((a, b) => b.total - a.total)\<close>: \<^verbatim>\<open>Array.prototype.sort\<close> is stable, and the
  comparator puts the larger total first. A call that fails returns the error only: the rows
  it wrote before failing are not part of the result.
\<close>

definition recalculateAllScores :: "clock \<Rightarrow> db \<Rightarrow> error + db" where
  "recalculateAllScores now d =
     (let chefs0 = active_chefs d;
          weights = getWeights d;
          scored = map (score_chef now weights) chefs0;
          sorted = sort_key (\<lambda>s. - sc_total s) scored
      in case persist_ranks 0 sorted (chefs d) of
           Inl e \<Rightarrow> Inl e
         | Inr cs \<Rightarrow> Inr (d\<lparr>chefs := cs\<rparr>))"

subsection \<open>Monthly snapshots\<close>

text \<open>
  \<^verbatim>\<open>findFirst({ where: { month: { lt: month } }, orderBy: { month: "desc" } })\<close>: strings are
  compared code unit by code unit.
\<close>

definition findPrevSnapshot :: "string \<Rightarrow> monthlySnapshot list \<Rightarrow> monthlySnapshot option" where
  "findPrevSnapshot month snaps =
     (case rev (sort_key ms_month (filter (\<lambda>s. ms_month s < month) snaps)) of
        [] \<Rightarrow> None
      | s # _ \<Rightarrow> Some s)"

text \<open>\<^verbatim>\<open>include: { entries: true }\<close>\<close>

definition entries_of :: "string \<Rightarrow> snapshotEntry list \<Rightarrow> snapshotEntry list" where
  "entries_of sid es = filter (\<lambda>e. e_snapshotId e = sid) es"

definition prevRankMap :: "monthlySnapshot option \<Rightarrow> snapshotEntry list \<Rightarrow> (string \<rightharpoonup> int)" where
  "prevRankMap prevSnapshot es =
     (case prevSnapshot of
        None \<Rightarrow> Map.empty
      | Some p \<Rightarrow> fold (\<lambda>entry m. m(e_chefId entry \<mapsto> e_rank entry)) (entries_of (ms_id p) es) Map.empty)"

text \<open>
  \<^verbatim>\<open>prisma.monthlySnapshot.upsert\<close>. An update leaves \<open>notes\<close> as it is when the argument is
  \<^verbatim>\<open>undefined\<close>. A new row takes the identifier \<open>cuid\<close> that the store generates, and the
  insertion fails when a row already has it.
\<close>

definition snapshot_upsert ::
  "clock \<Rightarrow> string \<Rightarrow> string \<Rightarrow> string option \<Rightarrow> monthlySnapshot list
     \<Rightarrow> error + (monthlySnapshot \<times> monthlySnapshot list)" where
  "snapshot_upsert now cuid month notes snaps =
     (case find (\<lambda>s. ms_month s = month) snaps of
        Some s \<Rightarrow>
          (let s' = s\<lparr>ms_publishedAt := Some (clk_time now),
                      ms_notes := (case notes of None \<Rightarrow> ms_notes s | Some n \<Rightarrow> Some n)\<rparr>
           in Inr (s', map (\<lambda>t. if ms_id t = ms_id s then s' else t) snaps))
      | None \<Rightarrow>
          (if cuid \<in> set (map ms_id snaps) then Inl UniqueConstraint
           else (let s' = \<lparr>ms_id = cuid, ms_month = month,
                           ms_publishedAt = Some (clk_time now), ms_notes = notes\<rparr>
                 in Inr (s', snaps @ [s']))))"

text \<open>\<^verbatim>\<open>prevRank && chef.rank ? prevRank - chef.rank : null\<close>: \<^verbatim>\<open>undefined\<close>, \<^verbatim>\<open>null\<close> and 0 are falsy.\<close>

definition snapshot_delta :: "int option \<Rightarrow> int option \<Rightarrow> int option" where
  "snapshot_delta prevRank r =
     (case prevRank of
        None \<Rightarrow> None
      | Some p \<Rightarrow> if p = 0 then None
                  else (case r of None \<Rightarrow> None | Some k \<Rightarrow> if k = 0 then None else Some (p - k)))"

text \<open>\<^verbatim>\<open>prisma.snapshotEntry.create\<close>: the pair (snapshotId, chefId) is unique.\<close>

definition entry_create :: "snapshotEntry \<Rightarrow> snapshotEntry list \<Rightarrow> error + snapshotEntry list" where
  "entry_create e es =
     (if list_ex (\<lambda>x. e_snapshotId x = e_snapshotId e \<and> e_chefId x = e_chefId e) es
      then Inl UniqueConstraint else Inr (es @ [e]))"

text \<open>The loop \<^verbatim>\<open>for (const chef of chefs)\<close>. The column \<open>rank\<close> is \<^verbatim>\<open>NOT NULL\<close>.\<close>

fun write_entries ::
  "clock \<Rightarrow> scoringWeights \<Rightarrow> (string \<rightharpoonup> int) \<Rightarrow> string \<Rightarrow> chef list \<Rightarrow> snapshotEntry list
     \<Rightarrow> error + snapshotEntry list" where
  "write_entries now weights prm sid [] es = Inr es"
| "write_entries now weights prm sid (c # cs) es =
     (let breakdown = calculateBreakdown now c;
          total = calculateTotalScore breakdown weights;
          prevRank = prm (chef_id c);
          delta = snapshot_delta prevRank (chef_rank c)
      in case chef_rank c of
           None \<Rightarrow> Inl NullConstraint
         | Some r \<Rightarrow>
             (case entry_create \<lparr>e_snapshotId = sid, e_chefId = chef_id c, e_rank = r,
                                 e_totalScore = total, e_breakdown = breakdown, e_delta = delta\<rparr> es of
                Inl e \<Rightarrow> Inl e
              | Inr es' \<Rightarrow> write_entries now weights prm sid cs es'))"

text \<open>
  \<^verbatim>\<open>findMany({ where: { isArchived: false }, orderBy: { rank: "asc" } })\<close>: a \<^verbatim>\<open>null\<close> rank
  sorts first.
\<close>

definition chefs_by_rank :: "db \<Rightarrow> chef list" where
  "chefs_by_rank d = sort_key chef_rank (active_chefs d)"

definition createMonthlySnapshot ::
  "clock \<Rightarrow> string \<Rightarrow> string \<Rightarrow> string option \<Rightarrow> db \<Rightarrow> error + (string \<times> db)" where
  "createMonthlySnapshot now cuid month notes d =
     (case recalculateAllScores now d of
        Inl e \<Rightarrow> Inl e
      | Inr d1 \<Rightarrow>
          (let chefs1 = chefs_by_rank d1;
               weights = getWeights d1;
               prevSnapshot = findPrevSnapshot month (monthlySnapshots d1);
               prm = prevRankMap prevSnapshot (snapshotEntries d1)
           in case snapshot_upsert now cuid month notes (monthlySnapshots d1) of
                Inl e \<Rightarrow> Inl e
              | Inr (snapshot, snaps) \<Rightarrow>
                  (let kept = filter (\<lambda>e. e_snapshotId e \<noteq> ms_id snapshot) (snapshotEntries d1)
                   in case write_entries now weights prm (ms_id snapshot) chefs1 kept of
                        Inl e \<Rightarrow> Inl e
                      | Inr es \<Rightarrow>
                          Inr (ms_id snapshot, d1\<lparr>monthlySnapshots := snaps, snapshotEntries := es\<rparr>))))"

subsection \<open>The handler of \<^verbatim>\<open>POST /api/snapshots\<close>\<close>

record requestBody =
  rb_month :: "string option"
  rb_notes :: "string option"

datatype response = Status400 | Status201 string

text \<open>
  \<^verbatim>\<open>if (!month || !/^\d{4}-\d{2}$/.test(month))\<close> answers 400 before anything else runs. The
  body's \<open>month\<close> is a string or absent.
\<close>

definition POST_snapshots :: "clock \<Rightarrow> string \<Rightarrow> requestBody \<Rightarrow> db \<Rightarrow> error + (response \<times> db)" where
  "POST_snapshots now cuid body d =
     (case rb_month body of
        None \<Rightarrow> Inr (Status400, d)
      | Some month \<Rightarrow>
          if month = [] \<or> \<not> month_format month then Inr (Status400, d)
          else (case createMonthlySnapshot now cuid month (rb_notes body) d of
                  Inl e \<Rightarrow> Inl e
                | Inr (snapshotId, d') \<Rightarrow> Inr (Status201 snapshotId, d')))"

subsection \<open>Invariants of the store\<close>

text \<open>The primary key of \<^verbatim>\<open>Chef\<close>.\<close>

definition chef_ids_unique :: "db \<Rightarrow> bool" where
  "chef_ids_unique d = distinct (map chef_id (chefs d))"

text \<open>The primary key of \<^verbatim>\<open>MonthlySnapshot\<close> and its unique index on \<open>month\<close>.\<close>

definition snapshots_unique :: "db \<Rightarrow> bool" where
  "snapshots_unique d =
     (distinct (map ms_id (monthlySnapshots d)) \<and> distinct (map ms_month (monthlySnapshots d)))"

text \<open>The unique index of \<^verbatim>\<open>SnapshotEntry\<close> on (snapshotId, chefId).\<close>

definition entries_unique :: "db \<Rightarrow> bool" where
  "entries_unique d = distinct (map (\<lambda>e. (e_snapshotId e, e_chefId e)) (snapshotEntries d))"

text \<open>Every stored rank is at least 1, as every rank that \<open>persist_ranks\<close> writes is.\<close>

definition entry_ranks_positive :: "db \<Rightarrow> bool" where
  "entry_ranks_positive d = list_all (\<lambda>e. 1 \<le> e_rank e) (snapshotEntries d)"

subsection \<open>Auxiliary notions for the proofs\<close>

text \<open>The position of the first occurrence of \<open>x\<close> in a list (its length when there is none).\<close>

fun index_of :: "'a list \<Rightarrow> 'a \<Rightarrow> nat" where
  "index_of [] x = 0"
| "index_of (y # ys) x = (if x = y then 0 else Suc (index_of ys x))"

text \<open>What one \<^verbatim>\<open>chef.update\<close> does to one row, and what the whole loop does to it.\<close>

definition rank_row :: "scored \<Rightarrow> int \<Rightarrow> chef \<Rightarrow> chef" where
  "rank_row s r c =
     (if chef_id c = sc_id s then c\<lparr>totalScore := sc_total s, chef_rank := Some r\<rparr> else c)"

fun rank_rows :: "nat \<Rightarrow> scored list \<Rightarrow> chef \<Rightarrow> chef" where
  "rank_rows i [] c = c"
| "rank_rows i (s # ss) c = rank_rows (Suc i) ss (rank_row s (int i + 1) c)"

text \<open>The array \<open>scored\<close> of \<open>recalculateAllScores\<close> after it is sorted.\<close>

definition sorted_scores :: "clock \<Rightarrow> db \<Rightarrow> scored list" where
  "sorted_scores now d =
     sort_key (\<lambda>s. - sc_total s) (map (score_chef now (getWeights d)) (active_chefs d))"

text \<open>The row that one turn of the loop of \<open>createMonthlySnapshot\<close> inserts for a ranked chef.\<close>

definition entry_for ::
  "clock \<Rightarrow> scoringWeights \<Rightarrow> (string \<rightharpoonup> int) \<Rightarrow> string \<Rightarrow> chef \<Rightarrow> snapshotEntry" where
  "entry_for now weights prm sid c =
     \<lparr>e_snapshotId = sid, e_chefId = chef_id c, e_rank = the (chef_rank c),
      e_totalScore = calculateTotalScore (calculateBreakdown now c) weights,
      e_breakdown = calculateBreakdown now c,
      e_delta = snapshot_delta (prm (chef_id c)) (chef_rank c)\<rparr>"

text \<open>
  In the words of the specification: \<open>p\<close> is the immediately preceding snapshot, the latest
  one whose month is lexicographically less than the target month.
\<close>

definition latest_before :: "string \<Rightarrow> monthlySnapshot list \<Rightarrow> monthlySnapshot \<Rightarrow> bool" where
  "latest_before month snaps p =
     (p \<in> set snaps \<and> ms_month p < month
        \<and> (\<forall>q\<in>set snaps. ms_month q < month \<longrightarrow> ms_month q \<le> ms_month p))"

text \<open>
  In the words of the claim: the role matches the executive pattern. Read as a set of
  strings, the regular expression \<^verbatim>\<open>/chef.*owner|executive|head chef|chef de cuisine/i\<close>
  accepts a role that, letter case aside, contains \<open>executive\<close>, \<open>head chef\<close> or
  \<open>chef de cuisine\<close>, or contains \<open>chef\<close> and, later on the same line, \<open>owner\<close>.
\<close>

definition matches_executive_pattern :: "string \<Rightarrow> bool" where
  "matches_executive_pattern role =
     ((\<exists>u m v. map to_lower role = u @ ''chef'' @ m @ ''owner'' @ v
          \<and> (\<forall>ch\<in>set m. \<not> line_terminator ch))
      \<or> (\<exists>u v. map to_lower role = u @ ''executive'' @ v)
      \<or> (\<exists>u v. map to_lower role = u @ ''head chef'' @ v)
      \<or> (\<exists>u v. map to_lower role = u @ ''chef de cuisine'' @ v))"

text \<open>The store after \<open>recalculateAllScores\<close>.\<close>

definition ranked_db :: "clock \<Rightarrow> db \<Rightarrow> db" where
  "ranked_db now d = d\<lparr>chefs := map (rank_rows 0 (sorted_scores now d)) (chefs d)\<rparr>"

subsection \<open>Sample data\<close>

text \<open>1 January 2026 and 1 January 2027, with the instants ten years earlier.\<close>

definition sample_clock :: clock where
  "sample_clock =
     \<lparr>clk_time = 1767225600000, clk_fullYear = 2026, clk_tenYearsAgo = 1451606400000\<rparr>"

definition later_clock :: clock where
  "later_clock =
     \<lparr>clk_time = 1798761600000, clk_fullYear = 2027, clk_tenYearsAgo = 1483228800000\<rparr>"

definition sample_accolade :: "string \<Rightarrow> string option \<Rightarrow> int \<Rightarrow> accolade" where
  "sample_accolade ty detail y =
     \<lparr>a_type = ty, a_detail = detail, a_year = Some y, a_createdAt = 1760000000000\<rparr>"

definition sample_chef ::
  "string \<Rightarrow> bool \<Rightarrow> int option \<Rightarrow> accolade list \<Rightarrow> publicSignal list \<Rightarrow> chef" where
  "sample_chef i archived years as sigs =
     \<lparr>chef_id = i, isArchived = archived, totalScore = 0, chef_rank = None,
      yearsExperience = years, accolades = as, careerEntries = [], publicSignals = sigs,
      peerStandings = []\<rparr>"

definition negative_chef :: chef where
  "negative_chef = sample_chef ''n'' False (Some (- 100)) []
     [\<lparr>s_platform = ''INSTAGRAM'', s_value = Some (- 1000000), s_createdAt = 1760000000000\<rparr>]"

text \<open>
  The chef of the specification's end-to-end scenario (ten years of experience, one current
  entry as executive chef), a chef whose only entry is as sous chef, a chef whose only entry
  is outside the window, and a chef with no record at all.
\<close>

definition sample_career :: "string \<Rightarrow> careerEntry" where
  "sample_career role =
     \<lparr>c_isCurrent = True, c_startYear = Some 2020, c_endYear = None, c_role = role,
      c_createdAt = 1760000000000\<rparr>"

definition executive_chef :: chef where
  "executive_chef =
     (sample_chef ''x'' False (Some 10) [] [])\<lparr>careerEntries := [sample_career ''Executive Chef'']\<rparr>"

definition sous_chef :: chef where
  "sous_chef =
     (sample_chef ''y'' False (Some 10) [] [])\<lparr>careerEntries := [sample_career ''Sous Chef'']\<rparr>"

text \<open>A chef whose only entry, as executive chef, ended in 2005 and was recorded in 2006.\<close>

definition former_executive :: chef where
  "former_executive =
     (sample_chef ''z'' False (Some 10) [] [])\<lparr>careerEntries :=
        [\<lparr>c_isCurrent = False, c_startYear = Some 2000, c_endYear = Some 2005,
          c_role = ''Executive Chef'', c_createdAt = 1140000000000\<rparr>]\<rparr>"

definition blank_chef :: chef where
  "blank_chef = sample_chef ''c'' False None [] []"

definition wordy_chef :: chef where
  "wordy_chef = sample_chef ''w'' False (Some 10)
     [sample_accolade ''MICHELIN_STAR'' (Some ''Michelin 3 stars'') 2025] []"

definition three_star_chef :: chef where
  "three_star_chef = sample_chef ''b'' False (Some 10)
     [sample_accolade ''MICHELIN_STAR'' (Some ''3 stars'') 2016] []"

text \<open>
  Four chefs, one of them archived, two of them with equal records; three weight rows, one
  of a category that is not scored.
\<close>

definition sample_db :: db where
  "sample_db =
     \<lparr>chefs = [sample_chef ''a'' False (Some 5) [] [], three_star_chef,
               sample_chef ''c'' True None [] [], sample_chef ''d'' False (Some 5) [] []],
      scoringWeights = [\<lparr>sw_category = ''careerTrack'', sw_weight = 1\<rparr>,
                        \<lparr>sw_category = ''credentials'', sw_weight = 1 / 10\<rparr>,
                        \<lparr>sw_category = ''peerStanding'', sw_weight = 1\<rparr>],
      monthlySnapshots = [], snapshotEntries = []\<rparr>"

text \<open>
  The sample store after the snapshot of January 2026 is published, and the same store after
  the roster changes: chef \<open>a\<close> is archived and a chef \<open>e\<close> is added.
\<close>

definition published_db :: db where
  "published_db =
     snd (projr (createMonthlySnapshot sample_clock ''s1'' ''2026-01'' None sample_db))"

definition changed_db :: db where
  "changed_db =
     published_db\<lparr>chefs :=
       map (\<lambda>c. if chef_id c = ''a'' then c\<lparr>isArchived := True\<rparr> else c) (chefs published_db)
         @ [sample_chef ''e'' False None [] []]\<rparr>"

definition first_snapshot :: monthlySnapshot where
  "first_snapshot =
     \<lparr>ms_id = ''s1'', ms_month = ''2026-01'', ms_publishedAt = Some 1767225600000,
      ms_notes = None\<rparr>"


section \<open>Properties\<close>

subsection \<open>Rounding to one decimal\<close>

lemma floor_half: "\<lfloor>(of_int k :: rat) + 1 / 2\<rfloor> = k"
  by (rule floor_unique) simp_all

lemma round1_mono: "x \<le> y \<Longrightarrow> round1 x \<le> round1 y"
  unfolding round1_def math_round_def
  by (simp add: divide_right_mono floor_mono)

lemma round1_of_int: "round1 (of_int n) = of_int n"
proof -
  have "(of_int n :: rat) * 10 = of_int (n * 10)" by simp
  then have "math_round (of_int n * 10) = of_int (n * 10)"
    unfolding math_round_def by (simp only: floor_half)
  then show ?thesis unfolding round1_def by simp
qed

lemma round1_0: "round1 0 = 0"
  using round1_of_int [of 0] by simp

lemma round1_100: "round1 100 = 100"
  using round1_of_int [of 100] by simp

lemma round1_15: "round1 15 = 15"
  using round1_of_int [of 15] by simp

lemma round1_bounds:
  "0 \<le> x \<Longrightarrow> 0 \<le> round1 x" "x \<le> 100 \<Longrightarrow> round1 x \<le> 100" "15 \<le> x \<Longrightarrow> 15 \<le> round1 x"
  using round1_mono [of 0 x] round1_mono [of x 100] round1_mono [of 15 x]
  by (simp_all add: round1_0 round1_100 round1_15)

subsection \<open>The range of the breakdown\<close>

text \<open>Every field is capped at 100.\<close>

lemma calculateBreakdown_capped:
  "b_formalAccolades (calculateBreakdown now c) \<le> 100
   \<and> b_careerTrack (calculateBreakdown now c) \<le> 100
   \<and> b_publicSignals (calculateBreakdown now c) \<le> 100
   \<and> b_peerStanding (calculateBreakdown now c) \<le> 100"
proof -
  have r: "round1 x \<le> 100" if "x \<le> 100" for x
    using round1_mono [OF that] round1_of_int [of 100] by simp
  show ?thesis
    unfolding calculateBreakdown_def
    by (simp add: r formalAccoladesRaw_def careerTrackRaw_def publicSignalsRaw_def
        peerStandingRaw_def Let_def)
qed

text \<open>
  The sum of the signal values is that of the doubles: here the second value is absorbed
  by the first, the third cancels the first, and the sum is the fourth value alone, negative
  although the four values add up to a positive number.
\<close>

lemma signal_sum_cancels:
  "totalSignalValue
     [\<lparr>s_platform = ''A'', s_value = Some (10 ^ 30), s_createdAt = 0\<rparr>,
      \<lparr>s_platform = ''B'', s_value = Some (6 * 10 ^ 13), s_createdAt = 0\<rparr>,
      \<lparr>s_platform = ''C'', s_value = Some (- 1000000000000000019884624838656), s_createdAt = 0\<rparr>,
      \<lparr>s_platform = ''D'', s_value = Some (- 5 * 10 ^ 13), s_createdAt = 0\<rparr>]
   = - 5 * 10 ^ 13"
  by code_simp

text \<open>
  Claim C1 says that each of the four fields of the breakdown lies in the closed interval
  from 0 to 100 for every input. The code does not do that: it caps each score at 100 and
  has no floor. For a chef with \<open>yearsExperience = -100\<close> and one signal of value
  \<open>-1000000\<close> the career score is \<open>-185\<close> and the signal score \<open>-85\<close>.
\<close>

theorem calculateBreakdown_below_zero:
  "b_careerTrack (calculateBreakdown sample_clock negative_chef) = - 185
   \<and> b_publicSignals (calculateBreakdown sample_clock negative_chef) = - 85"
  by code_simp

subsection \<open>The career score and the executive pattern\<close>

lemma str_includes_iff: "str_includes pat s \<longleftrightarrow> (\<exists>u v. s = u @ pat @ v)"
proof (induction s)
  case Nil
  then show ?case by auto
next
  case (Cons c s)
  have "(\<exists>u v. c # s = u @ pat @ v) \<longleftrightarrow> (\<exists>v. c # s = pat @ v) \<or> (\<exists>u v. s = u @ pat @ v)"
  proof
    assume "\<exists>u v. c # s = u @ pat @ v"
    then obtain u v where e: "c # s = u @ pat @ v" by blast
    show "(\<exists>v. c # s = pat @ v) \<or> (\<exists>u v. s = u @ pat @ v)"
    proof (cases u)
      case Nil
      then show ?thesis using e by auto
    next
      case (Cons a u')
      then have "s = u' @ pat @ v" using e by simp
      then show ?thesis by blast
    qed
  next
    assume "(\<exists>v. c # s = pat @ v) \<or> (\<exists>u v. s = u @ pat @ v)"
    then show "\<exists>u v. c # s = u @ pat @ v"
    proof
      assume "\<exists>v. c # s = pat @ v"
      then obtain v where "c # s = [] @ pat @ v" by auto
      then show ?thesis by blast
    next
      assume "\<exists>u v. s = u @ pat @ v"
      then obtain u v where "c # s = (c # u) @ pat @ v" by auto
      then show ?thesis by blast
    qed
  qed
  then show ?case using Cons.IH by (simp add: prefix_def)
qed

lemma owner_follows_iff:
  "owner_follows s \<longleftrightarrow>
     (\<exists>m v. s = m @ ''owner'' @ v \<and> (\<forall>ch\<in>set m. \<not> line_terminator ch))"
proof (induction s)
  case Nil
  then show ?case by simp
next
  case (Cons c s)
  let ?R = "\<lambda>t. \<exists>m v. t = m @ ''owner'' @ v \<and> (\<forall>ch\<in>set m. \<not> line_terminator ch)"
  have "?R (c # s) \<longleftrightarrow> (\<exists>v. c # s = ''owner'' @ v) \<or> (\<not> line_terminator c \<and> ?R s)"
  proof
    assume "?R (c # s)"
    then obtain m v where e: "c # s = m @ ''owner'' @ v" and n: "\<forall>ch\<in>set m. \<not> line_terminator ch"
      by blast
    show "(\<exists>v. c # s = ''owner'' @ v) \<or> (\<not> line_terminator c \<and> ?R s)"
    proof (cases m)
      case Nil
      then show ?thesis using e by auto
    next
      case (Cons a m')
      then have "s = m' @ ''owner'' @ v" "\<not> line_terminator c" "\<forall>ch\<in>set m'. \<not> line_terminator ch"
        using e n by auto
      then show ?thesis by blast
    qed
  next
    assume "(\<exists>v. c # s = ''owner'' @ v) \<or> (\<not> line_terminator c \<and> ?R s)"
    then show "?R (c # s)"
    proof
      assume "\<exists>v. c # s = ''owner'' @ v"
      then obtain v where "c # s = [] @ ''owner'' @ v \<and> (\<forall>ch\<in>set []. \<not> line_terminator ch)"
        by auto
      then show ?thesis by blast
    next
      assume a: "\<not> line_terminator c \<and> ?R s"
      then obtain m v where "s = m @ ''owner'' @ v" "\<forall>ch\<in>set m. \<not> line_terminator ch"
        by blast
      then have "c # s = (c # m) @ ''owner'' @ v \<and> (\<forall>ch\<in>set (c # m). \<not> line_terminator ch)"
        using a by simp
      then show ?thesis by blast
    qed
  qed
  then show ?case using Cons.IH by (simp only: owner_follows.simps prefix_def)
qed

lemma chef_owner_iff:
  "chef_owner s \<longleftrightarrow>
     (\<exists>u m v. s = u @ ''chef'' @ m @ ''owner'' @ v \<and> (\<forall>ch\<in>set m. \<not> line_terminator ch))"
proof (induction s)
  case Nil
  then show ?case by simp
next
  case (Cons c s)
  let ?R = "\<lambda>t. \<exists>u m v. t = u @ ''chef'' @ m @ ''owner'' @ v \<and> (\<forall>ch\<in>set m. \<not> line_terminator ch)"
  have here: "(prefix ''chef'' (c # s) \<and> owner_follows (drop 4 (c # s))) \<longleftrightarrow>
      (\<exists>m v. c # s = ''chef'' @ m @ ''owner'' @ v \<and> (\<forall>ch\<in>set m. \<not> line_terminator ch))"
  proof
    assume a: "prefix ''chef'' (c # s) \<and> owner_follows (drop 4 (c # s))"
    then obtain t where t: "c # s = ''chef'' @ t" by (auto simp: prefix_def)
    then have "drop 4 (c # s) = t" by simp
    then obtain m v where "t = m @ ''owner'' @ v" "\<forall>ch\<in>set m. \<not> line_terminator ch"
      using a owner_follows_iff [of t] by auto
    then show "\<exists>m v. c # s = ''chef'' @ m @ ''owner'' @ v \<and> (\<forall>ch\<in>set m. \<not> line_terminator ch)"
      using t by auto
  next
    assume "\<exists>m v. c # s = ''chef'' @ m @ ''owner'' @ v \<and> (\<forall>ch\<in>set m. \<not> line_terminator ch)"
    then obtain m v where e: "c # s = ''chef'' @ (m @ ''owner'' @ v)"
      and n: "\<forall>ch\<in>set m. \<not> line_terminator ch" by auto
    have p: "prefix ''chef'' (c # s)" unfolding e by (rule prefixI) simp
    have "drop 4 (c # s) = m @ ''owner'' @ v" unfolding e by simp
    then have "owner_follows (drop 4 (c # s))"
      using n owner_follows_iff [of "m @ ''owner'' @ v"] by auto
    then show "prefix ''chef'' (c # s) \<and> owner_follows (drop 4 (c # s))" using p by simp
  qed
  have "?R (c # s) \<longleftrightarrow>
      (\<exists>m v. c # s = ''chef'' @ m @ ''owner'' @ v \<and> (\<forall>ch\<in>set m. \<not> line_terminator ch)) \<or> ?R s"
  proof
    assume "?R (c # s)"
    then obtain u m v where e: "c # s = u @ ''chef'' @ m @ ''owner'' @ v"
      and n: "\<forall>ch\<in>set m. \<not> line_terminator ch" by blast
    show "(\<exists>m v. c # s = ''chef'' @ m @ ''owner'' @ v \<and> (\<forall>ch\<in>set m. \<not> line_terminator ch)) \<or> ?R s"
    proof (cases u)
      case Nil
      then show ?thesis using e n by auto
    next
      case (Cons a u')
      then have "s = u' @ ''chef'' @ m @ ''owner'' @ v" using e by simp
      then show ?thesis using n by blast
    qed
  next
    assume "(\<exists>m v. c # s = ''chef'' @ m @ ''owner'' @ v \<and> (\<forall>ch\<in>set m. \<not> line_terminator ch)) \<or> ?R s"
    then show "?R (c # s)"
    proof
      assume "\<exists>m v. c # s = ''chef'' @ m @ ''owner'' @ v \<and> (\<forall>ch\<in>set m. \<not> line_terminator ch)"
      then obtain m v where "c # s = [] @ ''chef'' @ m @ ''owner'' @ v \<and> (\<forall>ch\<in>set m. \<not> line_terminator ch)"
        by auto
      then show ?thesis by blast
    next
      assume "?R s"
      then obtain u m v where "s = u @ ''chef'' @ m @ ''owner'' @ v" "\<forall>ch\<in>set m. \<not> line_terminator ch"
        by blast
      then have "c # s = (c # u) @ ''chef'' @ m @ ''owner'' @ v \<and> (\<forall>ch\<in>set m. \<not> line_terminator ch)"
        by simp
      then show ?thesis by blast
    qed
  qed
  then show ?case using Cons.IH here by (simp only: chef_owner.simps)
qed

lemma exec_role_iff: "exec_role role \<longleftrightarrow> matches_executive_pattern role"
  unfolding exec_role_def matches_executive_pattern_def Let_def
  by (simp only: chef_owner_iff str_includes_iff)

lemma roleScore_eq:
  "roleScore rc = (if \<exists>e\<in>set rc. matches_executive_pattern (c_role e) then 30 else 15)"
  unfolding roleScore_def Let_def by (simp add: list_ex_iff exec_role_iff)

lemma careerTrackRaw_ge:
  assumes "case ye of None \<Rightarrow> True | Some y \<Rightarrow> 0 \<le> y"
  shows "15 \<le> careerTrackRaw ye rc"
proof -
  have y: "0 \<le> min 40 (rat_of_int (case ye of None \<Rightarrow> 0 | Some y \<Rightarrow> y) * 2)"
    using assms by (cases ye) auto
  have p: "0 \<le> min 30 (of_nat (length rc) * (6::rat))" by simp
  have r: "15 \<le> roleScore rc" by (simp add: roleScore_def Let_def)
  show ?thesis unfolding careerTrackRaw_def Let_def using y p r by simp
qed

text \<open>
  Claim C10: when \<open>yearsExperience\<close> is null or non-negative, the career score is at
  least 15. It is the sum, capped at 100 and rounded to one decimal, of the year score, the
  position score and the role component; the role component is 30 when the role of some
  career entry in the window matches the executive pattern and 15 otherwise, so it is 15
  for a chef with no career entry.
\<close>

theorem careerTrack_at_least_15:
  assumes "case yearsExperience c of None \<Rightarrow> True | Some y \<Rightarrow> 0 \<le> y"
  shows "15 \<le> b_careerTrack (calculateBreakdown now c)
     \<and> b_careerTrack (calculateBreakdown now c) =
         round1 (min 100
           (min 40 (of_int (case yearsExperience c of None \<Rightarrow> 0 | Some y \<Rightarrow> y) * 2)
            + min 30 (of_nat (length (recentCareer now (careerEntries c))) * 6)
            + roleScore (recentCareer now (careerEntries c))))
     \<and> roleScore (recentCareer now (careerEntries c)) =
         (if \<exists>e\<in>set (recentCareer now (careerEntries c)). matches_executive_pattern (c_role e)
          then 30 else 15)
     \<and> (careerEntries c = [] \<longrightarrow> roleScore (recentCareer now (careerEntries c)) = 15)"
proof -
  have 1: "15 \<le> b_careerTrack (calculateBreakdown now c)"
    unfolding calculateBreakdown_def
    using round1_mono [OF careerTrackRaw_ge [OF assms, of "recentCareer now (careerEntries c)"]]
    by (simp add: round1_15)
  have 2: "b_careerTrack (calculateBreakdown now c) =
         round1 (min 100
           (min 40 (of_int (case yearsExperience c of None \<Rightarrow> 0 | Some y \<Rightarrow> y) * 2)
            + min 30 (of_nat (length (recentCareer now (careerEntries c))) * 6)
            + roleScore (recentCareer now (careerEntries c))))"
    by (simp add: calculateBreakdown_def careerTrackRaw_def Let_def)
  have 3: "roleScore (recentCareer now (careerEntries c)) =
         (if \<exists>e\<in>set (recentCareer now (careerEntries c)). matches_executive_pattern (c_role e)
          then 30 else 15)"
    by (rule roleScore_eq)
  have 4: "careerEntries c = [] \<longrightarrow> roleScore (recentCareer now (careerEntries c)) = 15"
    by (simp add: recentCareer_def roleScore_def Let_def)
  from 1 2 3 4 show ?thesis by blast
qed

text \<open>
  The witness: an executive chef (20 + 6 + 30 = 56), a sous chef (20 + 6 + 15 = 41), a chef
  whose executive entry lies outside the window (20 + 0 + 15 = 35) and a chef with no record
  at all (15); then roles that match the pattern and roles that do not (\<open>owner\<close> before
  \<open>chef\<close>, \<open>chef\<close> and \<open>owner\<close> on two lines).
\<close>

theorem careerTrack_at_least_15_witness:
  "(case yearsExperience executive_chef of None \<Rightarrow> True | Some y \<Rightarrow> 0 \<le> y)
   \<and> (case yearsExperience sous_chef of None \<Rightarrow> True | Some y \<Rightarrow> 0 \<le> y)
   \<and> (case yearsExperience former_executive of None \<Rightarrow> True | Some y \<Rightarrow> 0 \<le> y)
   \<and> (case yearsExperience blank_chef of None \<Rightarrow> True | Some y \<Rightarrow> 0 \<le> y)
   \<and> 15 \<le> b_careerTrack (calculateBreakdown sample_clock executive_chef)
   \<and> b_careerTrack (calculateBreakdown sample_clock executive_chef) = 56
   \<and> (\<exists>e\<in>set (recentCareer sample_clock (careerEntries executive_chef)).
         matches_executive_pattern (c_role e))
   \<and> b_careerTrack (calculateBreakdown sample_clock sous_chef) = 41
   \<and> \<not> (\<exists>e\<in>set (recentCareer sample_clock (careerEntries sous_chef)).
         matches_executive_pattern (c_role e))
   \<and> b_careerTrack (calculateBreakdown sample_clock former_executive) = 35
   \<and> \<not> (\<exists>e\<in>set (recentCareer sample_clock (careerEntries former_executive)).
         matches_executive_pattern (c_role e))
   \<and> careerEntries blank_chef = []
   \<and> roleScore (recentCareer sample_clock (careerEntries blank_chef)) = 15
   \<and> b_careerTrack (calculateBreakdown sample_clock blank_chef) = 15
   \<and> matches_executive_pattern ''Chef and Owner''
   \<and> matches_executive_pattern ''HEAD CHEF''
   \<and> matches_executive_pattern ''Chef de Cuisine''
   \<and> \<not> matches_executive_pattern ''Owner and chef''
   \<and> \<not> matches_executive_pattern (''Chef'' @ [CHR 0x0A] @ ''Owner'')"
proof -
  have hx: "case yearsExperience executive_chef of None \<Rightarrow> True | Some y \<Rightarrow> 0 \<le> y"
    by code_simp
  have hy: "case yearsExperience sous_chef of None \<Rightarrow> True | Some y \<Rightarrow> 0 \<le> y"
    by code_simp
  have hz: "case yearsExperience former_executive of None \<Rightarrow> True | Some y \<Rightarrow> 0 \<le> y"
    by code_simp
  have hc: "case yearsExperience blank_chef of None \<Rightarrow> True | Some y \<Rightarrow> 0 \<le> y"
    by code_simp
  have vx: "b_careerTrack (calculateBreakdown sample_clock executive_chef) = 56"
    by code_simp
  have vy: "b_careerTrack (calculateBreakdown sample_clock sous_chef) = 41"
    by code_simp
  have vz: "b_careerTrack (calculateBreakdown sample_clock former_executive) = 35"
    by code_simp
  have vc: "b_careerTrack (calculateBreakdown sample_clock blank_chef) = 15"
    by code_simp
  have rx: "roleScore (recentCareer sample_clock (careerEntries executive_chef)) = 30"
    by code_simp
  have ry: "roleScore (recentCareer sample_clock (careerEntries sous_chef)) = 15"
    by code_simp
  have rz: "roleScore (recentCareer sample_clock (careerEntries former_executive)) = 15"
    by code_simp
  have ec: "careerEntries blank_chef = []"
    by code_simp
  have mx: "\<exists>e\<in>set (recentCareer sample_clock (careerEntries executive_chef)).
         matches_executive_pattern (c_role e)"
    using careerTrack_at_least_15 [OF hx, of sample_clock] rx by (auto split: if_splits)
  have my: "\<not> (\<exists>e\<in>set (recentCareer sample_clock (careerEntries sous_chef)).
         matches_executive_pattern (c_role e))"
    using careerTrack_at_least_15 [OF hy, of sample_clock] ry by (auto split: if_splits)
  have mz: "\<not> (\<exists>e\<in>set (recentCareer sample_clock (careerEntries former_executive)).
         matches_executive_pattern (c_role e))"
    using careerTrack_at_least_15 [OF hz, of sample_clock] rz by (auto split: if_splits)
  have rc: "roleScore (recentCareer sample_clock (careerEntries blank_chef)) = 15"
    using careerTrack_at_least_15 [OF hc, of sample_clock] ec by blast
  have lx: "15 \<le> b_careerTrack (calculateBreakdown sample_clock executive_chef)"
    using careerTrack_at_least_15 [OF hx, of sample_clock] by blast
  have p1: "exec_role ''Chef and Owner''" by code_simp
  have p2: "exec_role ''HEAD CHEF''" by code_simp
  have p3: "exec_role ''Chef de Cuisine''" by code_simp
  have p4: "\<not> exec_role ''Owner and chef''" by code_simp
  have p5: "\<not> exec_role (''Chef'' @ [CHR 0x0A] @ ''Owner'')" by code_simp
  from hx hy hz hc lx vx mx vy my vz mz ec rc vc p1 p2 p3 p4 p5 show ?thesis
    unfolding exec_role_iff by blast
qed

subsection \<open>The Michelin component\<close>

lemma michelin_best_eq:
  "michelin_best best ms =
     (if list_ex (\<lambda>m. michelin_stars m = Some 3) ms then max best 100
      else if list_ex (\<lambda>m. michelin_stars m = Some 2) ms then max best 70
      else if ms = [] then best else max best 40)"
  by (induction ms arbitrary: best) (auto simp: Let_def max_def)

text \<open>
  Claim C4, as stated, fails: a Michelin accolade whose detail is \<open>Michelin 3 stars\<close>
  contains the character 3, and its component is 40, not 100, since the detail does not
  start with a number.
\<close>

theorem michelin_containing_3_scores_40:
  "a_type (hd (accolades wordy_chef)) = ''MICHELIN_STAR''
   \<and> str_includes ''3'' (the (a_detail (hd (accolades wordy_chef))))
   \<and> recentAccolades sample_clock (accolades wordy_chef) = accolades wordy_chef
   \<and> scoreMichelinStars (recentAccolades sample_clock (accolades wordy_chef)) = 40
   \<and> b_formalAccolades (calculateBreakdown sample_clock wordy_chef) = 40"
  by code_simp

text \<open>
  Claim C4, amended: the Michelin component is 0 when no accolade in the window is a
  Michelin star; otherwise 100 when the detail of one of them parses (as \<^verbatim>\<open>parseInt\<close> does:
  leading integer, a null or empty detail read as 1) to 3; otherwise 70 when one parses
  to 2; otherwise 40.
\<close>

theorem scoreMichelinStars_by_parsed_stars:
  "scoreMichelinStars ra =
     (if \<not> list_ex (\<lambda>a. a_type a = ''MICHELIN_STAR'') ra then 0
      else if list_ex (\<lambda>a. a_type a = ''MICHELIN_STAR'' \<and> michelin_stars a = Some 3) ra then 100
      else if list_ex (\<lambda>a. a_type a = ''MICHELIN_STAR'' \<and> michelin_stars a = Some 2) ra then 70
      else 40)"
proof -
  let ?m = "filter (\<lambda>a. a_type a = ''MICHELIN_STAR'') ra"
  have e: "list_ex P ?m = list_ex (\<lambda>a. a_type a = ''MICHELIN_STAR'' \<and> P a) ra" for P
    by (auto simp: list_ex_iff)
  have n: "?m = [] \<longleftrightarrow> \<not> list_ex (\<lambda>a. a_type a = ''MICHELIN_STAR'') ra"
    by (auto simp: list_ex_iff filter_empty_conv)
  show ?thesis
    unfolding scoreMichelinStars_def Let_def length_0_conv michelin_best_eq [of 0 ?m] e n
    by simp
qed

theorem scoreMichelinStars_by_parsed_stars_witness:
  "scoreMichelinStars (recentAccolades sample_clock (accolades three_star_chef)) = 100
   \<and> list_ex (\<lambda>a. a_type a = ''MICHELIN_STAR'' \<and> michelin_stars a = Some 3)
        (recentAccolades sample_clock (accolades three_star_chef))"
proof -
  have h: "list_ex (\<lambda>a. a_type a = ''MICHELIN_STAR'' \<and> michelin_stars a = Some 3)
        (recentAccolades sample_clock (accolades three_star_chef))"
    by code_simp
  have h': "list_ex (\<lambda>a. a_type a = ''MICHELIN_STAR'')
        (recentAccolades sample_clock (accolades three_star_chef))"
    by code_simp
  show ?thesis
    using h h' scoreMichelinStars_by_parsed_stars
      [of "recentAccolades sample_clock (accolades three_star_chef)"]
    by simp
qed

subsection \<open>What the scores depend on\<close>

text \<open>
  Claim C9, as stated, fails: \<open>calculateBreakdown\<close> reads the system clock. The same chef,
  whose only accolade is dated 2016, scores 100 for accolades in 2026 and 0 in 2027.
\<close>

theorem calculateBreakdown_reads_clock:
  "b_formalAccolades (calculateBreakdown sample_clock three_star_chef) = 100
   \<and> b_formalAccolades (calculateBreakdown later_clock three_star_chef) = 0"
  by code_simp

text \<open>
  Claim C9, amended: the breakdown is determined by the record set (accolades, career
  entries, public signals, peer standings, years of experience) and by the year and the
  ten-years-ago instant of the clock, and the total by the breakdown and the weights;
  nothing else of the chef row or of the clock is read.
\<close>

theorem scores_depend_on_records_weights_clock:
  assumes "clk_fullYear now = clk_fullYear now'" and "clk_tenYearsAgo now = clk_tenYearsAgo now'"
    and "accolades c = accolades c'" and "careerEntries c = careerEntries c'"
    and "publicSignals c = publicSignals c'" and "peerStandings c = peerStandings c'"
    and "yearsExperience c = yearsExperience c'"
  shows "calculateBreakdown now c = calculateBreakdown now' c'
       \<and> calculateTotalScore (calculateBreakdown now c) w
           = calculateTotalScore (calculateBreakdown now' c') w"
proof -
  have y: "cutoffYear now = cutoffYear now'" using assms(1) by (simp add: cutoffYear_def)
  have t: "cutoffDate now = cutoffDate now'" using assms(2) by (simp add: cutoffDate_def)
  have "calculateBreakdown now c = calculateBreakdown now' c'"
    unfolding calculateBreakdown_def recentAccolades_def recentCareer_def recentSignals_def
      recentPeers_def year_in_window_def y t assms(3-7) by (rule refl)
  then show ?thesis by simp
qed

theorem scores_depend_on_records_weights_clock_witness:
  "calculateBreakdown sample_clock three_star_chef
     = calculateBreakdown (sample_clock\<lparr>clk_time := 0\<rparr>)
         (three_star_chef\<lparr>chef_id := ''z'', totalScore := 50, chef_rank := Some 7\<rparr>)
   \<and> calculateTotalScore (calculateBreakdown sample_clock three_star_chef) DEFAULT_WEIGHTS
     = calculateTotalScore (calculateBreakdown (sample_clock\<lparr>clk_time := 0\<rparr>)
         (three_star_chef\<lparr>chef_id := ''z'', totalScore := 50, chef_rank := Some 7\<rparr>)) DEFAULT_WEIGHTS
   \<and> sample_clock \<noteq> sample_clock\<lparr>clk_time := 0\<rparr>"
proof -
  have ne: "sample_clock \<noteq> sample_clock\<lparr>clk_time := 0\<rparr>"
    by (simp add: sample_clock_def)
  show ?thesis
    using ne scores_depend_on_records_weights_clock
      [of sample_clock "sample_clock\<lparr>clk_time := 0\<rparr>" three_star_chef
          "three_star_chef\<lparr>chef_id := ''z'', totalScore := 50, chef_rank := Some 7\<rparr>"
          DEFAULT_WEIGHTS]
    by simp
qed

subsection \<open>Validation of the month\<close>

text \<open>
  Claim C5, as stated, fails: \<open>createMonthlySnapshot\<close> does not look at the form of the
  month. Called with the month \<open>garbage\<close> it succeeds, ranks the chefs, and writes a snapshot
  row and three entries.
\<close>

theorem createMonthlySnapshot_accepts_any_month:
  "\<not> month_format ''garbage''
   \<and> \<not> isl (createMonthlySnapshot sample_clock ''s1'' ''garbage'' None sample_db)
   \<and> map ms_month (monthlySnapshots (snd (projr
        (createMonthlySnapshot sample_clock ''s1'' ''garbage'' None sample_db)))) = [''garbage'']
   \<and> map e_chefId (snapshotEntries (snd (projr
        (createMonthlySnapshot sample_clock ''s1'' ''garbage'' None sample_db)))) = [''b'', ''a'', ''d'']
   \<and> map chef_rank (chefs (snd (projr
        (createMonthlySnapshot sample_clock ''s1'' ''garbage'' None sample_db))))
       = [Some 2, Some 1, None, Some 3]"
  by code_simp

text \<open>
  Claim C5, amended: the handler of \<^verbatim>\<open>POST /api/snapshots\<close> answers 400 to a body whose month
  is missing or does not have the form of four digits, a hyphen and two digits, and leaves
  the store as it was: nothing is recalculated, no snapshot row and no entry is written.
\<close>

theorem invalid_month_rejected_by_handler:
  assumes "rb_month body = None \<or> (\<exists>m. rb_month body = Some m \<and> \<not> month_format m)"
  shows "POST_snapshots now cuid body d = Inr (Status400, d)"
  using assms by (auto simp: POST_snapshots_def)

theorem invalid_month_rejected_by_handler_witness:
  "\<not> month_format ''2026-1''
   \<and> POST_snapshots sample_clock ''s1'' \<lparr>rb_month = Some ''2026-1'', rb_notes = None\<rparr> sample_db
       = Inr (Status400, sample_db)"
proof -
  have m: "\<not> month_format ''2026-1''"
    by code_simp
  then have h: "rb_month \<lparr>rb_month = Some ''2026-1'', rb_notes = None\<rparr> = None
      \<or> (\<exists>m. rb_month \<lparr>rb_month = Some ''2026-1'', rb_notes = None\<rparr> = Some m \<and> \<not> month_format m)"
    by simp
  show ?thesis
    using m invalid_month_rejected_by_handler [OF h, of sample_clock "''s1''" sample_db] by simp
qed

subsection \<open>Weights\<close>

lemma fold_set_weight_skip:
  "(\<forall>r\<in>set rows. sw_category r \<noteq> ''formalAccolades'') \<Longrightarrow>
     w_formalAccolades (fold set_weight rows w) = w_formalAccolades w"
  "(\<forall>r\<in>set rows. sw_category r \<noteq> ''careerTrack'') \<Longrightarrow>
     w_careerTrack (fold set_weight rows w) = w_careerTrack w"
  "(\<forall>r\<in>set rows. sw_category r \<noteq> ''publicSignals'') \<Longrightarrow>
     w_publicSignals (fold set_weight rows w) = w_publicSignals w"
  "(\<forall>r\<in>set rows. sw_category r \<noteq> ''peerStanding'') \<Longrightarrow>
     w_peerStanding (fold set_weight rows w) = w_peerStanding w"
  by (induction rows arbitrary: w) (auto simp: set_weight_def assign_property_def)

lemma has_declared_property:
  "has_property ''formalAccolades'' w" "has_property ''careerTrack'' w"
  "has_property ''publicSignals'' w" "has_property ''peerStanding'' w"
  by (simp_all add: has_property_def own_keys_def declared_keys_def)

lemma fold_set_weight_no_new_key:
  "w_others w = [] \<Longrightarrow> (\<forall>r\<in>set rows. sw_category r \<notin> set inherited_names) \<Longrightarrow>
     w_others (fold set_weight rows w) = []"
proof (induction rows arbitrary: w)
  case Nil
  then show ?case by simp
next
  case (Cons a rows)
  have "w_others (set_weight a w) = []"
    using Cons.prems
    by (auto simp: set_weight_def assign_property_def has_property_def own_keys_def
        declared_keys_def)
  then show ?case using Cons.prems(2) Cons.IH [of "set_weight a w"] by simp
qed

lemma fold_set_weight_formalAccolades:
  assumes "distinct (map sw_category rows)" and "r \<in> set rows"
    and "sw_category r = ''formalAccolades''"
  shows "w_formalAccolades (fold set_weight rows w) = sw_weight r"
  using assms
proof (induction rows arbitrary: w)
  case Nil
  then show ?case by simp
next
  case (Cons a rows)
  show ?case
  proof (cases "r = a")
    case True
    have no: "\<forall>x\<in>set rows. sw_category x \<noteq> ''formalAccolades''"
      using Cons.prems True by (auto simp: image_iff)
    have "w_formalAccolades (fold set_weight rows (set_weight a w)) = w_formalAccolades (set_weight a w)"
      by (rule fold_set_weight_skip(1) [OF no])
    also have "\<dots> = sw_weight r"
      using True Cons.prems(3)
      by (simp add: set_weight_def has_declared_property assign_property_def)
    finally show ?thesis by simp
  next
    case False
    then show ?thesis using Cons.prems Cons.IH [of "set_weight a w"] by simp
  qed
qed

lemma fold_set_weight_careerTrack:
  assumes "distinct (map sw_category rows)" and "r \<in> set rows"
    and "sw_category r = ''careerTrack''"
  shows "w_careerTrack (fold set_weight rows w) = sw_weight r"
  using assms
proof (induction rows arbitrary: w)
  case Nil
  then show ?case by simp
next
  case (Cons a rows)
  show ?case
  proof (cases "r = a")
    case True
    have no: "\<forall>x\<in>set rows. sw_category x \<noteq> ''careerTrack''"
      using Cons.prems True by (auto simp: image_iff)
    have "w_careerTrack (fold set_weight rows (set_weight a w)) = w_careerTrack (set_weight a w)"
      by (rule fold_set_weight_skip(2) [OF no])
    also have "\<dots> = sw_weight r"
      using True Cons.prems(3)
      by (simp add: set_weight_def has_declared_property assign_property_def)
    finally show ?thesis by simp
  next
    case False
    then show ?thesis using Cons.prems Cons.IH [of "set_weight a w"] by simp
  qed
qed

lemma fold_set_weight_publicSignals:
  assumes "distinct (map sw_category rows)" and "r \<in> set rows"
    and "sw_category r = ''publicSignals''"
  shows "w_publicSignals (fold set_weight rows w) = sw_weight r"
  using assms
proof (induction rows arbitrary: w)
  case Nil
  then show ?case by simp
next
  case (Cons a rows)
  show ?case
  proof (cases "r = a")
    case True
    have no: "\<forall>x\<in>set rows. sw_category x \<noteq> ''publicSignals''"
      using Cons.prems True by (auto simp: image_iff)
    have "w_publicSignals (fold set_weight rows (set_weight a w)) = w_publicSignals (set_weight a w)"
      by (rule fold_set_weight_skip(3) [OF no])
    also have "\<dots> = sw_weight r"
      using True Cons.prems(3)
      by (simp add: set_weight_def has_declared_property assign_property_def)
    finally show ?thesis by simp
  next
    case False
    then show ?thesis using Cons.prems Cons.IH [of "set_weight a w"] by simp
  qed
qed

lemma fold_set_weight_peerStanding:
  assumes "distinct (map sw_category rows)" and "r \<in> set rows"
    and "sw_category r = ''peerStanding''"
  shows "w_peerStanding (fold set_weight rows w) = sw_weight r"
  using assms
proof (induction rows arbitrary: w)
  case Nil
  then show ?case by simp
next
  case (Cons a rows)
  show ?case
  proof (cases "r = a")
    case True
    have no: "\<forall>x\<in>set rows. sw_category x \<noteq> ''peerStanding''"
      using Cons.prems True by (auto simp: image_iff)
    have "w_peerStanding (fold set_weight rows (set_weight a w)) = w_peerStanding (set_weight a w)"
      by (rule fold_set_weight_skip(4) [OF no])
    also have "\<dots> = sw_weight r"
      using True Cons.prems(3)
      by (simp add: set_weight_def has_declared_property assign_property_def)
    finally show ?thesis by simp
  next
    case False
    then show ?thesis using Cons.prems Cons.IH [of "set_weight a w"] by simp
  qed
qed

text \<open>
  What \<open>getWeights\<close> returns for the four declared categories, on a table with at most
  one row per category (its unique index): with no row the defaults 0.35, 0.25, 0.15 and
  0.25; for a category that has a row exactly the weight of the row, whatever the weights
  sum to; for a category that has none its default. When no row is named after an inherited
  property, the four declared keys are the only keys.
\<close>

lemma getWeights_fields:
  assumes "distinct (map sw_category (scoringWeights d))"
  shows "(scoringWeights d = [] \<longrightarrow> getWeights d =
           \<lparr>w_formalAccolades = 35 / 100, w_careerTrack = 25 / 100,
            w_publicSignals = 15 / 100, w_peerStanding = 25 / 100, w_others = []\<rparr>)
    \<and> (\<forall>r\<in>set (scoringWeights d).
          (sw_category r = ''formalAccolades'' \<longrightarrow> w_formalAccolades (getWeights d) = sw_weight r)
        \<and> (sw_category r = ''careerTrack'' \<longrightarrow> w_careerTrack (getWeights d) = sw_weight r)
        \<and> (sw_category r = ''publicSignals'' \<longrightarrow> w_publicSignals (getWeights d) = sw_weight r)
        \<and> (sw_category r = ''peerStanding'' \<longrightarrow> w_peerStanding (getWeights d) = sw_weight r))
    \<and> ((\<forall>r\<in>set (scoringWeights d). sw_category r \<noteq> ''formalAccolades'')
          \<longrightarrow> w_formalAccolades (getWeights d) = 35 / 100)
    \<and> ((\<forall>r\<in>set (scoringWeights d). sw_category r \<noteq> ''careerTrack'')
          \<longrightarrow> w_careerTrack (getWeights d) = 25 / 100)
    \<and> ((\<forall>r\<in>set (scoringWeights d). sw_category r \<noteq> ''publicSignals'')
          \<longrightarrow> w_publicSignals (getWeights d) = 15 / 100)
    \<and> ((\<forall>r\<in>set (scoringWeights d). sw_category r \<noteq> ''peerStanding'')
          \<longrightarrow> w_peerStanding (getWeights d) = 25 / 100)
    \<and> ((\<forall>r\<in>set (scoringWeights d). sw_category r \<notin> set inherited_names)
          \<longrightarrow> own_keys (getWeights d) = declared_keys)"
proof -
  have g: "getWeights d = fold set_weight (scoringWeights d) DEFAULT_WEIGHTS"
    by (cases "scoringWeights d") (simp_all add: getWeights_def Let_def)
  have a: "scoringWeights d = [] \<longrightarrow> getWeights d =
           \<lparr>w_formalAccolades = 35 / 100, w_careerTrack = 25 / 100,
            w_publicSignals = 15 / 100, w_peerStanding = 25 / 100, w_others = []\<rparr>"
    by (simp add: getWeights_def Let_def DEFAULT_WEIGHTS_def)
  have b: "\<forall>r\<in>set (scoringWeights d).
          (sw_category r = ''formalAccolades'' \<longrightarrow> w_formalAccolades (getWeights d) = sw_weight r)
        \<and> (sw_category r = ''careerTrack'' \<longrightarrow> w_careerTrack (getWeights d) = sw_weight r)
        \<and> (sw_category r = ''publicSignals'' \<longrightarrow> w_publicSignals (getWeights d) = sw_weight r)
        \<and> (sw_category r = ''peerStanding'' \<longrightarrow> w_peerStanding (getWeights d) = sw_weight r)"
    unfolding g
    using fold_set_weight_formalAccolades [OF assms] fold_set_weight_careerTrack [OF assms]
      fold_set_weight_publicSignals [OF assms] fold_set_weight_peerStanding [OF assms]
    by blast
  have c: "(\<forall>r\<in>set (scoringWeights d). sw_category r \<noteq> ''formalAccolades'')
          \<longrightarrow> w_formalAccolades (getWeights d) = 35 / 100"
    unfolding g by (simp add: fold_set_weight_skip(1) DEFAULT_WEIGHTS_def)
  have d: "(\<forall>r\<in>set (scoringWeights d). sw_category r \<noteq> ''careerTrack'')
          \<longrightarrow> w_careerTrack (getWeights d) = 25 / 100"
    unfolding g by (simp add: fold_set_weight_skip(2) DEFAULT_WEIGHTS_def)
  have e: "(\<forall>r\<in>set (scoringWeights d). sw_category r \<noteq> ''publicSignals'')
          \<longrightarrow> w_publicSignals (getWeights d) = 15 / 100"
    unfolding g by (simp add: fold_set_weight_skip(3) DEFAULT_WEIGHTS_def)
  have f: "(\<forall>r\<in>set (scoringWeights d). sw_category r \<noteq> ''peerStanding'')
          \<longrightarrow> w_peerStanding (getWeights d) = 25 / 100"
    unfolding g by (simp add: fold_set_weight_skip(4) DEFAULT_WEIGHTS_def)
  have k: "(\<forall>r\<in>set (scoringWeights d). sw_category r \<notin> set inherited_names)
          \<longrightarrow> own_keys (getWeights d) = declared_keys"
  proof
    assume n: "\<forall>r\<in>set (scoringWeights d). sw_category r \<notin> set inherited_names"
    have "w_others DEFAULT_WEIGHTS = []" by (simp add: DEFAULT_WEIGHTS_def)
    then have "w_others (getWeights d) = []"
      unfolding g using n by (rule fold_set_weight_no_new_key)
    then show "own_keys (getWeights d) = declared_keys" by (simp add: own_keys_def)
  qed
  from a b c d e f k show ?thesis by blast
qed


subsection \<open>Positions in a list\<close>

lemma index_of_less: "x \<in> set xs \<Longrightarrow> index_of xs x < length xs"
  by (induction xs) auto

lemma nth_index_of: "x \<in> set xs \<Longrightarrow> xs ! index_of xs x = x"
  by (induction xs) auto

lemma index_of_nth: "distinct xs \<Longrightarrow> k < length xs \<Longrightarrow> index_of xs (xs ! k) = k"
proof (induction xs arbitrary: k)
  case Nil
  then show ?case by simp
next
  case (Cons a xs)
  then show ?case by (cases k) auto
qed

lemma map_index_of: "distinct xs \<Longrightarrow> map (index_of xs) xs = [0..<length xs]"
  by (rule nth_equalityI) (simp_all add: index_of_nth)

lemma index_of_map:
  "inj_on f (insert x (set xs)) \<Longrightarrow> index_of (map f xs) (f x) = index_of xs x"
proof (induction xs)
  case Nil
  then show ?case by simp
next
  case (Cons a xs)
  have "inj_on f (insert x (set xs))"
    using Cons.prems by (rule inj_on_subset) auto
  moreover have "f x = f a \<longleftrightarrow> x = a"
    using Cons.prems by (auto simp: inj_on_def)
  ultimately show ?case using Cons.IH by simp
qed

lemma index_of_filter:
  assumes "distinct xs" "x \<in> set xs" "y \<in> set xs" "P x" "P y"
  shows "index_of (filter P xs) x < index_of (filter P xs) y \<longleftrightarrow> index_of xs x < index_of xs y"
  using assms by (induction xs) auto

subsection \<open>The loop that writes scores and ranks\<close>

lemma chef_update_present:
  "sc_id s \<in> set (map chef_id cs) \<Longrightarrow>
     chef_update (sc_id s) (sc_total s) r cs = Inr (map (rank_row s r) cs)"
  by (simp add: chef_update_def rank_row_def)

lemma chef_id_rank_row [simp]: "chef_id (rank_row s r c) = chef_id c"
  by (simp add: rank_row_def)

lemma rank_rows_shape: "\<exists>t r. rank_rows i ss c = c\<lparr>totalScore := t, chef_rank := r\<rparr>"
proof (induction ss arbitrary: i c)
  case Nil
  have "c = c\<lparr>totalScore := totalScore c, chef_rank := chef_rank c\<rparr>" by simp
  then show ?case by (metis rank_rows.simps(1))
next
  case (Cons s ss)
  obtain t r where "rank_rows (Suc i) ss (rank_row s (int i + 1) c)
      = (rank_row s (int i + 1) c)\<lparr>totalScore := t, chef_rank := r\<rparr>"
    using Cons.IH by blast
  then have "rank_rows i (s # ss) c = c\<lparr>totalScore := t, chef_rank := r\<rparr>"
    by (simp add: rank_row_def)
  then show ?case by blast
qed

lemma rank_rows_fields:
  "chef_id (rank_rows i ss c) = chef_id c"
  "isArchived (rank_rows i ss c) = isArchived c"
  "calculateBreakdown now (rank_rows i ss c) = calculateBreakdown now c"
proof -
  obtain t r where e: "rank_rows i ss c = c\<lparr>totalScore := t, chef_rank := r\<rparr>"
    using rank_rows_shape by blast
  show "chef_id (rank_rows i ss c) = chef_id c" "isArchived (rank_rows i ss c) = isArchived c"
    "calculateBreakdown now (rank_rows i ss c) = calculateBreakdown now c"
    unfolding e by (simp_all add: calculateBreakdown_def)
qed

lemma persist_ranks_ok:
  "set (map sc_id ss) \<subseteq> set (map chef_id cs) \<Longrightarrow>
     persist_ranks i ss cs = Inr (map (rank_rows i ss) cs)"
proof (induction ss arbitrary: i cs)
  case Nil
  then show ?case by simp
next
  case (Cons s ss)
  have p: "sc_id s \<in> set (map chef_id cs)" using Cons.prems by simp
  have ids: "map chef_id (map (rank_row s (int i + 1)) cs) = map chef_id cs"
    by simp
  have "persist_ranks (Suc i) ss (map (rank_row s (int i + 1)) cs)
      = Inr (map (rank_rows (Suc i) ss) (map (rank_row s (int i + 1)) cs))"
    using Cons.prems by (intro Cons.IH) (simp only: ids, simp)
  then show ?case
    by (simp add: chef_update_present [OF p] comp_def)
qed

lemma sc_id_score_chef [simp]: "sc_id (score_chef now w c) = chef_id c"
  by (simp add: score_chef_def Let_def)

lemma sorted_scores_ids:
  "mset (map sc_id (sorted_scores now d)) = mset (map chef_id (active_chefs d))"
proof -
  have "mset (map sc_id (sorted_scores now d))
      = image_mset sc_id (mset (map (score_chef now (getWeights d)) (active_chefs d)))"
    by (simp add: sorted_scores_def)
  also have "\<dots> = mset (map chef_id (active_chefs d))"
    by (simp add: image_mset.compositionality comp_def)
  finally show ?thesis .
qed

lemma sorted_scores_subset:
  "set (map sc_id (sorted_scores now d)) \<subseteq> set (map chef_id (chefs d))"
proof -
  have "set (map sc_id (sorted_scores now d)) = set (map chef_id (active_chefs d))"
    using sorted_scores_ids [of now d] by (metis set_mset_mset)
  then show ?thesis by (auto simp: active_chefs_def)
qed

lemma recalculateAllScores_eq:
  "recalculateAllScores now d = Inr (d\<lparr>chefs := map (rank_rows 0 (sorted_scores now d)) (chefs d)\<rparr>)"
  using persist_ranks_ok [OF sorted_scores_subset, of 0 now d]
  by (simp add: recalculateAllScores_def Let_def sorted_scores_def)

lemma rank_rows_absent: "chef_id c \<notin> set (map sc_id ss) \<Longrightarrow> rank_rows i ss c = c"
  by (induction ss arbitrary: i) (auto simp: rank_row_def)

lemma rank_rows_overwrite:
  "rank_rows i ss (c\<lparr>totalScore := t, chef_rank := r\<rparr>) =
     (if chef_id c \<in> set (map sc_id ss) then rank_rows i ss c else c\<lparr>totalScore := t, chef_rank := r\<rparr>)"
proof (induction ss arbitrary: i c t r)
  case Nil
  then show ?case by simp
next
  case (Cons s ss)
  show ?case
  proof (cases "chef_id c = sc_id s")
    case True
    then show ?thesis by (simp add: rank_row_def)
  next
    case False
    then show ?thesis using Cons.IH [where i = "Suc i" and c = c and t = t and r = r] by (auto simp add: rank_row_def)
  qed
qed

lemma rank_rows_idem: "rank_rows i ss (rank_rows i ss c) = rank_rows i ss c"
proof (cases "chef_id c \<in> set (map sc_id ss)")
  case True
  obtain t r where e: "rank_rows i ss c = c\<lparr>totalScore := t, chef_rank := r\<rparr>"
    using rank_rows_shape by blast
  show ?thesis using True rank_rows_overwrite [where i = i and ss = ss and c = c and t = t and r = r] by (simp add: e)
next
  case False
  then show ?thesis by (simp add: rank_rows_absent)
qed

lemma active_chefs_ranked:
  "active_chefs (d\<lparr>chefs := map (rank_rows i ss) (chefs d)\<rparr>) = map (rank_rows i ss) (active_chefs d)"
  by (simp add: active_chefs_def filter_map comp_def rank_rows_fields)

lemma score_chef_ranked: "score_chef now w (rank_rows i ss c) = score_chef now w c"
  by (simp add: score_chef_def rank_rows_fields)

lemma sorted_scores_ranked:
  "sorted_scores now (d\<lparr>chefs := map (rank_rows i ss) (chefs d)\<rparr>) = sorted_scores now d"
proof -
  have "getWeights (d\<lparr>chefs := map (rank_rows i ss) (chefs d)\<rparr>) = getWeights d"
    by (simp add: getWeights_def)
  then show ?thesis
    unfolding sorted_scores_def active_chefs_ranked by (simp add: comp_def score_chef_ranked)
qed

text \<open>
  Claim C7: \<open>recalculateAllScores\<close> always succeeds, and running it again on the state it
  produced, at the same clock and with no other change, reproduces that state: every total
  score and every rank is the same after the second run as after the first.
\<close>

theorem recalculateAllScores_idempotent:
  "\<exists>d1. recalculateAllScores now d = Inr d1 \<and> recalculateAllScores now d1 = Inr d1"
proof -
  let ?S = "sorted_scores now d"
  let ?d1 = "d\<lparr>chefs := map (rank_rows 0 ?S) (chefs d)\<rparr>"
  have 1: "recalculateAllScores now d = Inr ?d1" by (rule recalculateAllScores_eq)
  have "recalculateAllScores now ?d1 = Inr (?d1\<lparr>chefs := map (rank_rows 0 ?S) (chefs ?d1)\<rparr>)"
    using recalculateAllScores_eq [of now ?d1] by (simp only: sorted_scores_ranked)
  also have "?d1\<lparr>chefs := map (rank_rows 0 ?S) (chefs ?d1)\<rparr> = ?d1"
    by (simp add: comp_def rank_rows_idem)
  finally show ?thesis using 1 by blast
qed

subsection \<open>Ranks after a recalculation\<close>

lemma rank_rows_present:
  "distinct (map sc_id ss) \<Longrightarrow> chef_id c \<in> set (map sc_id ss) \<Longrightarrow>
     rank_rows i ss c =
       c\<lparr>totalScore := sc_total (ss ! index_of (map sc_id ss) (chef_id c)),
         chef_rank := Some (int (i + index_of (map sc_id ss) (chef_id c)) + 1)\<rparr>"
proof (induction ss arbitrary: i c)
  case Nil
  then show ?case by simp
next
  case (Cons s ss)
  show ?case
  proof (cases "chef_id c = sc_id s")
    case True
    have "chef_id (rank_row s (int i + 1) c) \<notin> set (map sc_id ss)"
      using Cons.prems(1) True by simp
    then have "rank_rows (Suc i) ss (rank_row s (int i + 1) c) = rank_row s (int i + 1) c"
      by (rule rank_rows_absent)
    then show ?thesis using True by (simp add: rank_row_def)
  next
    case False
    then have "chef_id c \<in> set (map sc_id ss)" using Cons.prems(2) by auto
    then show ?thesis
      using False Cons.prems(1) Cons.IH [of c "Suc i"] by (simp add: rank_row_def)
  qed
qed

lemma sorted_scores_distinct:
  assumes "chef_ids_unique d"
  shows "distinct (map sc_id (sorted_scores now d))"
proof -
  have "distinct (map chef_id (active_chefs d))"
    using assms unfolding chef_ids_unique_def active_chefs_def by (rule distinct_map_filter)
  then show ?thesis
    using sorted_scores_ids [of now d] by (metis mset_eq_imp_distinct_iff)
qed

lemma sorted_scores_length: "length (sorted_scores now d) = length (active_chefs d)"
  by (simp add: sorted_scores_def)

lemma sorted_scores_set_ids:
  "set (map sc_id (sorted_scores now d)) = set (map chef_id (active_chefs d))"
  using sorted_scores_ids [of now d] by (metis set_mset_mset)

text \<open>The rank and the score of a non-archived chef after the recalculation.\<close>

lemma active_after:
  assumes u: "chef_ids_unique d" and c: "c \<in> set (active_chefs d)"
  shows "rank_rows 0 (sorted_scores now d) c =
           c\<lparr>totalScore := sc_total (sorted_scores now d ! index_of (map sc_id (sorted_scores now d)) (chef_id c)),
             chef_rank := Some (int (index_of (map sc_id (sorted_scores now d)) (chef_id c)) + 1)\<rparr>"
proof -
  have "chef_id c \<in> set (map sc_id (sorted_scores now d))"
    using c unfolding sorted_scores_set_ids by simp
  then show ?thesis
    using rank_rows_present [OF sorted_scores_distinct [OF u], of c now 0] by simp
qed

lemma ranks_dense:
  assumes u: "chef_ids_unique d"
  shows "mset (map chef_rank (map (rank_rows 0 (sorted_scores now d)) (active_chefs d)))
       = mset (map (\<lambda>k. Some (int k)) [1..<Suc (length (active_chefs d))])"
proof -
  let ?S = "sorted_scores now d"
  let ?I = "map sc_id ?S"
  let ?g = "\<lambda>x. Some (int (index_of ?I x) + 1)"
  have "map chef_rank (map (rank_rows 0 ?S) (active_chefs d)) = map ?g (map chef_id (active_chefs d))"
    by (simp add: active_after [OF u])
  then have "mset (map chef_rank (map (rank_rows 0 ?S) (active_chefs d)))
      = image_mset ?g (mset (map chef_id (active_chefs d)))"
    by (simp only: mset_map)
  also have "\<dots> = image_mset ?g (mset ?I)"
    by (simp only: sorted_scores_ids)
  also have "\<dots> = mset (map ?g ?I)"
    by (simp only: mset_map)
  also have "map ?g ?I = map (\<lambda>k. Some (int k + 1)) (map (index_of ?I) ?I)"
    by (simp only: map_map comp_def)
  also have "map (index_of ?I) ?I = [0..<length (active_chefs d)]"
    using map_index_of [OF sorted_scores_distinct [OF u], of now] by (simp add: sorted_scores_length)
  also have "map (\<lambda>k. Some (int k + 1)) [0..<length (active_chefs d)]
      = map (\<lambda>k. Some (int k)) (map Suc [0..<length (active_chefs d)])"
    by (simp add: comp_def add.commute)
  also have "map Suc [0..<length (active_chefs d)] = [1..<Suc (length (active_chefs d))]"
    by (simp only: map_Suc_upt One_nat_def)
  finally show ?thesis .
qed

lemma sorted_scores_desc:
  assumes "i \<le> j" "j < length (sorted_scores now d)"
  shows "sc_total (sorted_scores now d ! j) \<le> sc_total (sorted_scores now d ! i)"
proof -
  have "sorted (map (\<lambda>s. - sc_total s) (sorted_scores now d))"
    unfolding sorted_scores_def by (rule sorted_sort_key)
  then have "map (\<lambda>s. - sc_total s) (sorted_scores now d) ! i
      \<le> map (\<lambda>s. - sc_total s) (sorted_scores now d) ! j"
    using assms by (intro sorted_nth_mono) simp_all
  then show ?thesis using assms by simp
qed

lemma ranks_descending:
  assumes u: "chef_ids_unique d"
    and a: "a \<in> set (active_chefs d)" and b: "b \<in> set (active_chefs d)"
    and lt: "chef_rank (rank_rows 0 (sorted_scores now d) a) < chef_rank (rank_rows 0 (sorted_scores now d) b)"
  shows "totalScore (rank_rows 0 (sorted_scores now d) b) \<le> totalScore (rank_rows 0 (sorted_scores now d) a)"
proof -
  let ?S = "sorted_scores now d"
  let ?I = "map sc_id ?S"
  have kb: "index_of ?I (chef_id b) < length ?S"
    using b index_of_less [of "chef_id b" ?I] unfolding sorted_scores_set_ids by simp
  have "index_of ?I (chef_id a) < index_of ?I (chef_id b)"
    using lt by (simp add: active_after [OF u a] active_after [OF u b])
  then show ?thesis
    using sorted_scores_desc [of "index_of ?I (chef_id a)" "index_of ?I (chef_id b)" now d] kb
    by (simp add: active_after [OF u a] active_after [OF u b])
qed

lemma ranks_stable:
  assumes u: "chef_ids_unique d"
    and ij: "i < j" and j: "j < length (active_chefs d)"
    and eq: "totalScore (rank_rows 0 (sorted_scores now d) (active_chefs d ! i))
           = totalScore (rank_rows 0 (sorted_scores now d) (active_chefs d ! j))"
  shows "chef_rank (rank_rows 0 (sorted_scores now d) (active_chefs d ! i))
       < chef_rank (rank_rows 0 (sorted_scores now d) (active_chefs d ! j))"
proof -
  let ?A = "active_chefs d"
  let ?sc = "map (score_chef now (getWeights d)) ?A"
  let ?f = "\<lambda>s. - sc_total s"
  let ?S = "sorted_scores now d"
  let ?I = "map sc_id ?S"
  have S: "?S = sort_key ?f ?sc" by (simp add: sorted_scores_def)
  have dI: "distinct ?I" by (rule sorted_scores_distinct [OF u])
  then have dS: "distinct ?S" and inj: "inj_on sc_id (set ?S)"
    by (simp_all add: distinct_map)
  have dsc: "distinct ?sc" using dS unfolding S by simp
  have set_eq: "set ?S = set ?sc" unfolding S by simp
  have i: "i < length ?A" using ij j by simp
  have mem: "?sc ! i \<in> set ?S" "?sc ! j \<in> set ?S"
    unfolding set_eq using i j by (simp_all only: nth_mem length_map)
  have memA: "?A ! i \<in> set ?A" "?A ! j \<in> set ?A" using i j by simp_all
  have pos: "index_of ?I (chef_id (?A ! k)) = index_of ?S (?sc ! k)" if "k < length ?A" and "?sc ! k \<in> set ?S" for k
  proof -
    have "inj_on sc_id (insert (?sc ! k) (set ?S))"
      using inj that(2) by (simp add: insert_absorb)
    then have "index_of (map sc_id ?S) (sc_id (?sc ! k)) = index_of ?S (?sc ! k)"
      by (rule index_of_map)
    then show ?thesis using that(1) by simp
  qed
  have pi: "index_of ?I (chef_id (?A ! i)) = index_of ?S (?sc ! i)"
    and pj: "index_of ?I (chef_id (?A ! j)) = index_of ?S (?sc ! j)"
    using pos [OF i mem(1)] pos [OF j mem(2)] by simp_all
  have ti: "totalScore (rank_rows 0 ?S (?A ! i)) = sc_total (?sc ! i)"
    by (simp only: active_after [OF u memA(1)] pi nth_index_of [OF mem(1)]) simp
  have tj: "totalScore (rank_rows 0 ?S (?A ! j)) = sc_total (?sc ! j)"
    by (simp only: active_after [OF u memA(2)] pj nth_index_of [OF mem(2)]) simp
  define k where "k = ?f (?sc ! i)"
  have Pi: "?f (?sc ! i) = k" and Pj: "?f (?sc ! j) = k"
    using eq unfolding ti tj k_def by simp_all
  have st: "filter (\<lambda>y. ?f y = k) ?S = filter (\<lambda>y. ?f y = k) ?sc"
    unfolding S by (rule sort_key_stable)
  have "index_of ?S (?sc ! i) < index_of ?S (?sc ! j)
      \<longleftrightarrow> index_of (filter (\<lambda>y. ?f y = k) ?S) (?sc ! i) < index_of (filter (\<lambda>y. ?f y = k) ?S) (?sc ! j)"
    using index_of_filter [OF dS mem, of "\<lambda>y. ?f y = k"] Pi Pj by simp
  also have "\<dots> \<longleftrightarrow> index_of ?sc (?sc ! i) < index_of ?sc (?sc ! j)"
    unfolding st using index_of_filter [OF dsc, of "?sc ! i" "?sc ! j" "\<lambda>y. ?f y = k"] mem Pi Pj
    unfolding set_eq by simp
  also have "\<dots> \<longleftrightarrow> i < j"
    using index_of_nth [OF dsc, of i] index_of_nth [OF dsc, of j] i j by simp
  finally have "index_of ?S (?sc ! i) < index_of ?S (?sc ! j)" using ij by simp
  then show ?thesis
    by (simp add: active_after [OF u memA(1)] active_after [OF u memA(2)] pi pj)
qed

lemma score_after:
  assumes u: "chef_ids_unique d" and c: "c \<in> set (active_chefs d)"
  shows "totalScore (rank_rows 0 (sorted_scores now d) c)
       = calculateTotalScore (calculateBreakdown now c) (getWeights d)"
proof -
  let ?A = "active_chefs d"
  let ?sc = "map (score_chef now (getWeights d)) ?A"
  let ?S = "sorted_scores now d"
  have dI: "distinct (map sc_id ?S)" by (rule sorted_scores_distinct [OF u])
  have inj: "inj_on sc_id (set ?S)" using dI by (simp add: distinct_map)
  have set_eq: "set ?S = set ?sc" by (simp add: sorted_scores_def)
  have mem: "score_chef now (getWeights d) c \<in> set ?S"
    unfolding set_eq using c by simp
  have "inj_on sc_id (insert (score_chef now (getWeights d) c) (set ?S))"
    using inj mem by (simp add: insert_absorb)
  then have "index_of (map sc_id ?S) (sc_id (score_chef now (getWeights d) c))
      = index_of ?S (score_chef now (getWeights d) c)"
    by (rule index_of_map)
  then have "?S ! index_of (map sc_id ?S) (chef_id c) = score_chef now (getWeights d) c"
    using nth_index_of [OF mem] by simp
  then show ?thesis
    by (simp add: active_after [OF u c] score_chef_def Let_def)
qed

text \<open>
  Claim C2: when chef identifiers are unique (the primary key), \<open>recalculateAllScores\<close>
  succeeds and leaves the N non-archived chefs, in their fetch order, with ranks that form
  the multiset 1, ..., N; a chef with a smaller rank has a total score at least as large; and
  of two chefs with equal total scores the one fetched first has the smaller rank.
\<close>

theorem recalculateAllScores_dense_ranks:
  assumes "chef_ids_unique d"
  shows "\<exists>d'. recalculateAllScores now d = Inr d'
     \<and> map chef_id (active_chefs d') = map chef_id (active_chefs d)
     \<and> mset (map chef_rank (active_chefs d'))
         = mset (map (\<lambda>k. Some (int k)) [1..<Suc (length (active_chefs d))])
     \<and> (\<forall>a\<in>set (active_chefs d'). \<forall>b\<in>set (active_chefs d').
           chef_rank a < chef_rank b \<longrightarrow> totalScore b \<le> totalScore a)
     \<and> (\<forall>i j. i < j \<and> j < length (active_chefs d')
           \<and> totalScore (active_chefs d' ! i) = totalScore (active_chefs d' ! j)
           \<longrightarrow> chef_rank (active_chefs d' ! i) < chef_rank (active_chefs d' ! j))"
proof -
  let ?S = "sorted_scores now d"
  let ?d' = "d\<lparr>chefs := map (rank_rows 0 ?S) (chefs d)\<rparr>"
  have A: "active_chefs ?d' = map (rank_rows 0 ?S) (active_chefs d)"
    by (rule active_chefs_ranked)
  have 1: "recalculateAllScores now d = Inr ?d'" by (rule recalculateAllScores_eq)
  have 2: "map chef_id (active_chefs ?d') = map chef_id (active_chefs d)"
    unfolding A by (simp add: rank_rows_fields)
  have 3: "mset (map chef_rank (active_chefs ?d'))
         = mset (map (\<lambda>k. Some (int k)) [1..<Suc (length (active_chefs d))])"
    unfolding A by (rule ranks_dense [OF assms])
  have 4: "\<forall>a\<in>set (active_chefs ?d'). \<forall>b\<in>set (active_chefs ?d').
           chef_rank a < chef_rank b \<longrightarrow> totalScore b \<le> totalScore a"
    unfolding A using ranks_descending [OF assms] by auto
  have 5: "\<forall>i j. i < j \<and> j < length (active_chefs ?d')
           \<and> totalScore (active_chefs ?d' ! i) = totalScore (active_chefs ?d' ! j)
           \<longrightarrow> chef_rank (active_chefs ?d' ! i) < chef_rank (active_chefs ?d' ! j)"
    unfolding A
  proof (intro allI impI, elim conjE)
    fix i j
    assume ij: "i < j" and j: "j < length (map (rank_rows 0 ?S) (active_chefs d))"
      and eq: "totalScore (map (rank_rows 0 ?S) (active_chefs d) ! i)
             = totalScore (map (rank_rows 0 ?S) (active_chefs d) ! j)"
    have j': "j < length (active_chefs d)" and i': "i < length (active_chefs d)"
      using ij j by simp_all
    show "chef_rank (map (rank_rows 0 ?S) (active_chefs d) ! i)
        < chef_rank (map (rank_rows 0 ?S) (active_chefs d) ! j)"
      using ranks_stable [OF assms ij j', of now] eq by (simp add: i' j')
  qed
  from 1 2 3 4 5 show ?thesis by blast
qed

theorem recalculateAllScores_dense_ranks_witness:
  "chef_ids_unique sample_db
   \<and> (\<exists>d'. recalculateAllScores sample_clock sample_db = Inr d'
     \<and> map chef_id (active_chefs d') = map chef_id (active_chefs sample_db)
     \<and> mset (map chef_rank (active_chefs d'))
         = mset (map (\<lambda>k. Some (int k)) [1..<Suc (length (active_chefs sample_db))])
     \<and> (\<forall>a\<in>set (active_chefs d'). \<forall>b\<in>set (active_chefs d').
           chef_rank a < chef_rank b \<longrightarrow> totalScore b \<le> totalScore a)
     \<and> (\<forall>i j. i < j \<and> j < length (active_chefs d')
           \<and> totalScore (active_chefs d' ! i) = totalScore (active_chefs d' ! j)
           \<longrightarrow> chef_rank (active_chefs d' ! i) < chef_rank (active_chefs d' ! j)))
   \<and> map chef_rank (chefs (projr (recalculateAllScores sample_clock sample_db)))
       = [Some 2, Some 1, None, Some 3]"
proof -
  have h: "chef_ids_unique sample_db"
    by code_simp
  have r: "map chef_rank (chefs (projr (recalculateAllScores sample_clock sample_db)))
       = [Some 2, Some 1, None, Some 3]"
    by code_simp
  show ?thesis
    using h r recalculateAllScores_dense_ranks [OF h, of sample_clock] by blast
qed

subsection \<open>Writing the entries of a snapshot\<close>

lemma entry_create_new:
  "\<not> list_ex (\<lambda>x. e_snapshotId x = e_snapshotId e \<and> e_chefId x = e_chefId e) es \<Longrightarrow>
     entry_create e es = Inr (es @ [e])"
  by (simp add: entry_create_def)

lemma write_entries_ok:
  assumes "\<forall>c\<in>set cs. chef_rank c \<noteq> None" and "distinct (map chef_id cs)"
    and "\<forall>e\<in>set es. e_snapshotId e = sid \<longrightarrow> e_chefId e \<notin> set (map chef_id cs)"
  shows "write_entries now w prm sid cs es = Inr (es @ map (entry_for now w prm sid) cs)"
  using assms
proof (induction cs arbitrary: es)
  case Nil
  then show ?case by simp
next
  case (Cons c cs)
  obtain r where r: "chef_rank c = Some r" using Cons.prems(1) by auto
  let ?e = "entry_for now w prm sid c"
  have fresh: "\<not> list_ex (\<lambda>x. e_snapshotId x = e_snapshotId ?e \<and> e_chefId x = e_chefId ?e) es"
    using Cons.prems(3) by (auto simp: list_ex_iff entry_for_def)
  have next_ok: "\<forall>e\<in>set (es @ [?e]). e_snapshotId e = sid \<longrightarrow> e_chefId e \<notin> set (map chef_id cs)"
    using Cons.prems(2,3) by (auto simp: entry_for_def)
  have "write_entries now w prm sid cs (es @ [?e])
      = Inr ((es @ [?e]) @ map (entry_for now w prm sid) cs)"
    using Cons.prems(1,2) next_ok by (intro Cons.IH) simp_all
  moreover have "write_entries now w prm sid (c # cs) es
      = (case entry_create ?e es of Inl x \<Rightarrow> Inl x
         | Inr es' \<Rightarrow> write_entries now w prm sid cs es')"
    by (simp add: r Let_def entry_for_def)
  ultimately show ?case by (simp add: entry_create_new [OF fresh])
qed

lemma chefs_by_rank_mset: "mset (chefs_by_rank d) = mset (active_chefs d)"
  by (simp add: chefs_by_rank_def)

lemma chefs_by_rank_set: "set (chefs_by_rank d) = set (active_chefs d)"
  by (simp add: chefs_by_rank_def)

lemma chefs_by_rank_distinct:
  assumes "distinct (map chef_id (active_chefs d))"
  shows "distinct (map chef_id (chefs_by_rank d))"
proof -
  have "mset (map chef_id (chefs_by_rank d)) = mset (map chef_id (active_chefs d))"
    by (simp add: chefs_by_rank_mset)
  then show ?thesis using assms by (metis mset_eq_imp_distinct_iff)
qed

lemma ranked_db_tables [simp]:
  "scoringWeights (ranked_db now d) = scoringWeights d"
  "monthlySnapshots (ranked_db now d) = monthlySnapshots d"
  "snapshotEntries (ranked_db now d) = snapshotEntries d"
  by (simp_all add: ranked_db_def)

lemma getWeights_ranked_db [simp]: "getWeights (ranked_db now d) = getWeights d"
  by (simp add: getWeights_def)

lemma active_ranked_db:
  "active_chefs (ranked_db now d) = map (rank_rows 0 (sorted_scores now d)) (active_chefs d)"
  unfolding ranked_db_def by (rule active_chefs_ranked)

lemma ranked_db_ids:
  "chef_ids_unique d \<Longrightarrow> distinct (map chef_id (active_chefs (ranked_db now d)))"
proof -
  assume "chef_ids_unique d"
  then have "distinct (map chef_id (active_chefs d))"
    unfolding chef_ids_unique_def active_chefs_def by (rule distinct_map_filter)
  then show ?thesis
    unfolding active_ranked_db by (simp add: comp_def rank_rows_fields)
qed

lemma ranked_db_ranks:
  assumes "chef_ids_unique d" and "c \<in> set (active_chefs (ranked_db now d))"
  shows "\<exists>r. chef_rank c = Some r \<and> 1 \<le> r"
proof -
  obtain a where a: "a \<in> set (active_chefs d)" and c: "c = rank_rows 0 (sorted_scores now d) a"
    using assms(2) unfolding active_ranked_db by auto
  show ?thesis unfolding c by (simp add: active_after [OF assms(1) a])
qed

lemma createMonthlySnapshot_eq:
  assumes u: "chef_ids_unique d"
    and up: "snapshot_upsert now cuid month notes (monthlySnapshots d) = Inr (snap, snaps)"
  shows "createMonthlySnapshot now cuid month notes d =
     Inr (ms_id snap, (ranked_db now d)
       \<lparr>monthlySnapshots := snaps,
        snapshotEntries := filter (\<lambda>e. e_snapshotId e \<noteq> ms_id snap) (snapshotEntries d)
          @ map (entry_for now (getWeights d)
                   (prevRankMap (findPrevSnapshot month (monthlySnapshots d)) (snapshotEntries d))
                   (ms_id snap))
              (chefs_by_rank (ranked_db now d))\<rparr>)"
proof -
  let ?d1 = "ranked_db now d"
  let ?kept = "filter (\<lambda>e. e_snapshotId e \<noteq> ms_id snap) (snapshotEntries d)"
  let ?prm = "prevRankMap (findPrevSnapshot month (monthlySnapshots d)) (snapshotEntries d)"
  have r: "recalculateAllScores now d = Inr ?d1"
    unfolding ranked_db_def by (rule recalculateAllScores_eq)
  have ranks: "\<forall>c\<in>set (chefs_by_rank ?d1). chef_rank c \<noteq> None"
    using ranked_db_ranks [OF u] unfolding chefs_by_rank_set by fastforce
  have ids: "distinct (map chef_id (chefs_by_rank ?d1))"
    by (rule chefs_by_rank_distinct [OF ranked_db_ids [OF u]])
  have kept: "\<forall>e\<in>set ?kept. e_snapshotId e = ms_id snap
      \<longrightarrow> e_chefId e \<notin> set (map chef_id (chefs_by_rank ?d1))"
    by simp
  have w: "write_entries now (getWeights d) ?prm (ms_id snap) (chefs_by_rank ?d1) ?kept
      = Inr (?kept @ map (entry_for now (getWeights d) ?prm (ms_id snap)) (chefs_by_rank ?d1))"
    by (rule write_entries_ok [OF ranks ids kept])
  show ?thesis
    unfolding createMonthlySnapshot_def by (simp add: r up w Let_def)
qed

subsection \<open>Publishing a month again\<close>

lemma snapshot_upsert_existing:
  assumes "find (\<lambda>s. ms_month s = month) snaps = Some s0"
  shows "snapshot_upsert now cuid month notes snaps =
     Inr (s0\<lparr>ms_publishedAt := Some (clk_time now),
             ms_notes := (case notes of None \<Rightarrow> ms_notes s0 | Some n \<Rightarrow> Some n)\<rparr>,
          map (\<lambda>t. if ms_id t = ms_id s0
                    then s0\<lparr>ms_publishedAt := Some (clk_time now),
                            ms_notes := (case notes of None \<Rightarrow> ms_notes s0 | Some n \<Rightarrow> Some n)\<rparr>
                    else t) snaps)"
  by (simp add: snapshot_upsert_def assms Let_def)

lemma snapshot_upsert_new:
  assumes "find (\<lambda>s. ms_month s = month) snaps = None" and "cuid \<notin> set (map ms_id snaps)"
  shows "snapshot_upsert now cuid month notes snaps =
     Inr (\<lparr>ms_id = cuid, ms_month = month, ms_publishedAt = Some (clk_time now), ms_notes = notes\<rparr>,
          snaps @ [\<lparr>ms_id = cuid, ms_month = month, ms_publishedAt = Some (clk_time now),
                    ms_notes = notes\<rparr>])"
  using assms by (simp add: snapshot_upsert_def Let_def)

lemma months_after_update:
  assumes "distinct (map ms_id snaps)" and "s0 \<in> set snaps" and "ms_month s' = ms_month s0"
  shows "map ms_month (map (\<lambda>t. if ms_id t = ms_id s0 then s' else t) snaps) = map ms_month snaps"
proof -
  have "inj_on ms_id (set snaps)" using assms(1) by (simp add: distinct_map)
  then have "\<forall>t\<in>set snaps. ms_id t = ms_id s0 \<longrightarrow> t = s0"
    using assms(2) by (auto dest: inj_onD)
  then show ?thesis using assms(3) by auto
qed

lemma one_row_per_key:
  "distinct (map f xs) \<Longrightarrow> x \<in> set xs \<Longrightarrow> length (filter (\<lambda>y. f y = f x) xs) = 1"
proof (induction xs)
  case Nil
  then show ?case by simp
next
  case (Cons a xs)
  show ?case
  proof (cases "x = a")
    case True
    have "f a \<notin> f ` set xs" using Cons.prems(1) by simp
    then have "\<forall>y\<in>set xs. f y \<noteq> f a" by (metis imageI)
    then have "filter (\<lambda>y. f y = f a) xs = []"
      by (simp add: filter_empty_conv)
    then show ?thesis using True by simp
  next
    case False
    then have "x \<in> set xs" using Cons.prems(2) by simp
    moreover from this have "f a \<noteq> f x" using Cons.prems(1) by auto
    ultimately show ?thesis using Cons.prems(1) Cons.IH by simp
  qed
qed

lemma count_month_rows:
  "length (filter (\<lambda>s. ms_month s = m) snaps) = length (filter (\<lambda>x. x = m) (map ms_month snaps))"
  by (simp add: filter_map comp_def)

lemma entries_of_written:
  "entries_of sid (filter (\<lambda>e. e_snapshotId e \<noteq> sid) es @ map (entry_for now w prm sid) cs)
     = map (entry_for now w prm sid) cs"
proof -
  have "filter (\<lambda>e. e_snapshotId e = sid) (map (entry_for now w prm sid) cs)
      = map (entry_for now w prm sid) cs"
    by (simp add: filter_map comp_def entry_for_def)
  then show ?thesis by (simp add: entries_of_def)
qed

lemma others_kept:
  "filter (\<lambda>e. e_snapshotId e \<noteq> sid)
       (filter (\<lambda>e. e_snapshotId e \<noteq> sid) es @ map (entry_for now w prm sid) cs)
     = filter (\<lambda>e. e_snapshotId e \<noteq> sid) es"
  by (simp add: filter_map comp_def entry_for_def)

text \<open>
  Claim C6: when the month already has a snapshot row (and identifiers and months are
  unique, as the store enforces), \<open>createMonthlySnapshot\<close> succeeds and returns the id of
  that row; afterwards there is exactly one row for the month, the entries of that snapshot
  are one per non-archived chef (their chef ids are the ids of the non-archived chefs in rank
  order, which are pairwise distinct), so no entry of the earlier publication is left, and
  the entries of every other snapshot are as before.
\<close>

theorem republish_replaces:
  assumes u: "chef_ids_unique d" and su: "snapshots_unique d"
    and ex: "find (\<lambda>s. ms_month s = month) (monthlySnapshots d) = Some s0"
  shows "\<exists>d'. createMonthlySnapshot now cuid month memo d = Inr (ms_id s0, d')
     \<and> length (filter (\<lambda>s. ms_month s = month) (monthlySnapshots d')) = 1
     \<and> map e_chefId (entries_of (ms_id s0) (snapshotEntries d')) = map chef_id (chefs_by_rank d')
     \<and> mset (chefs_by_rank d') = mset (active_chefs d')
     \<and> distinct (map chef_id (active_chefs d'))
     \<and> filter (\<lambda>e. e_snapshotId e \<noteq> ms_id s0) (snapshotEntries d')
         = filter (\<lambda>e. e_snapshotId e \<noteq> ms_id s0) (snapshotEntries d)"
proof -
  let ?s' = "s0\<lparr>ms_publishedAt := Some (clk_time now),
                 ms_notes := (case memo of None \<Rightarrow> ms_notes s0 | Some n \<Rightarrow> Some n)\<rparr>"
  let ?snaps = "map (\<lambda>t. if ms_id t = ms_id s0 then ?s' else t) (monthlySnapshots d)"
  let ?prm = "prevRankMap (findPrevSnapshot month (monthlySnapshots d)) (snapshotEntries d)"
  let ?es = "filter (\<lambda>e. e_snapshotId e \<noteq> ms_id s0) (snapshotEntries d)
          @ map (entry_for now (getWeights d) ?prm (ms_id s0)) (chefs_by_rank (ranked_db now d))"
  let ?d' = "(ranked_db now d)\<lparr>monthlySnapshots := ?snaps, snapshotEntries := ?es\<rparr>"
  have s0: "s0 \<in> set (monthlySnapshots d)" and m0: "ms_month s0 = month"
    using ex by (auto simp: find_Some_iff)
  have up: "snapshot_upsert now cuid month memo (monthlySnapshots d) = Inr (?s', ?snaps)"
    by (rule snapshot_upsert_existing [OF ex])
  have 1: "createMonthlySnapshot now cuid month memo d = Inr (ms_id s0, ?d')"
    using createMonthlySnapshot_eq [OF u up] by simp
  have months: "map ms_month ?snaps = map ms_month (monthlySnapshots d)"
    using su s0 unfolding snapshots_unique_def by (intro months_after_update) simp_all
  have "length (filter (\<lambda>s. ms_month s = month) ?snaps)
      = length (filter (\<lambda>s. ms_month s = ms_month s0) (monthlySnapshots d))"
    unfolding count_month_rows months m0 ..
  also have "\<dots> = 1"
    using su s0 unfolding snapshots_unique_def by (intro one_row_per_key) simp_all
  finally have 2: "length (filter (\<lambda>s. ms_month s = month) (monthlySnapshots ?d')) = 1"
    by simp
  have cbr: "chefs_by_rank ?d' = chefs_by_rank (ranked_db now d)"
    and act: "active_chefs ?d' = active_chefs (ranked_db now d)"
    by (simp_all add: chefs_by_rank_def active_chefs_def)
  have 3: "map e_chefId (entries_of (ms_id s0) (snapshotEntries ?d')) = map chef_id (chefs_by_rank ?d')"
    unfolding cbr by (simp add: entries_of_written comp_def entry_for_def)
  have 4: "mset (chefs_by_rank ?d') = mset (active_chefs ?d')"
    by (rule chefs_by_rank_mset)
  have 5: "distinct (map chef_id (active_chefs ?d'))"
    unfolding act by (rule ranked_db_ids [OF u])
  have 6: "filter (\<lambda>e. e_snapshotId e \<noteq> ms_id s0) (snapshotEntries ?d')
         = filter (\<lambda>e. e_snapshotId e \<noteq> ms_id s0) (snapshotEntries d)"
  proof -
    have "snapshotEntries ?d' = ?es" by simp
    then show ?thesis by (simp only: others_kept)
  qed
  from 1 2 3 4 5 6 show ?thesis by blast
qed

text \<open>
  The witness publishes January 2026, changes the roster (\<open>a\<close> archived, \<open>e\<close> added) and
  publishes January 2026 again: the entries go from \<open>b, a, d\<close> to \<open>b, d, e\<close>.
\<close>

theorem republish_replaces_witness:
  "chef_ids_unique changed_db \<and> snapshots_unique changed_db
   \<and> find (\<lambda>s. ms_month s = ''2026-01'') (monthlySnapshots changed_db) = Some first_snapshot
   \<and> map e_chefId (entries_of ''s1'' (snapshotEntries changed_db)) = [''b'', ''a'', ''d'']
   \<and> (\<exists>d'. createMonthlySnapshot sample_clock ''s2'' ''2026-01'' None changed_db
              = Inr (ms_id first_snapshot, d')
     \<and> length (filter (\<lambda>s. ms_month s = ''2026-01'') (monthlySnapshots d')) = 1
     \<and> map e_chefId (entries_of (ms_id first_snapshot) (snapshotEntries d'))
         = map chef_id (chefs_by_rank d')
     \<and> mset (chefs_by_rank d') = mset (active_chefs d')
     \<and> distinct (map chef_id (active_chefs d'))
     \<and> filter (\<lambda>e. e_snapshotId e \<noteq> ms_id first_snapshot) (snapshotEntries d')
         = filter (\<lambda>e. e_snapshotId e \<noteq> ms_id first_snapshot) (snapshotEntries changed_db))
   \<and> map e_chefId (snapshotEntries (snd (projr
         (createMonthlySnapshot sample_clock ''s2'' ''2026-01'' None changed_db)))) = [''b'', ''d'', ''e'']"
proof -
  have u: "chef_ids_unique changed_db" by code_simp
  have su: "snapshots_unique changed_db" by code_simp
  have ex: "find (\<lambda>s. ms_month s = ''2026-01'') (monthlySnapshots changed_db) = Some first_snapshot"
    by code_simp
  have before: "map e_chefId (entries_of ''s1'' (snapshotEntries changed_db)) = [''b'', ''a'', ''d'']"
    by code_simp
  have after: "map e_chefId (snapshotEntries (snd (projr
         (createMonthlySnapshot sample_clock ''s2'' ''2026-01'' None changed_db)))) = [''b'', ''d'', ''e'']"
    by code_simp
  show ?thesis
    using u su ex before after republish_replaces [OF u su ex, where now = sample_clock and cuid = "''s2''" and memo = None]
    by blast
qed

subsection \<open>The preceding snapshot and the rank delta\<close>

lemma sorted_last_max:
  assumes "sorted (map f xs)" and "x \<in> set xs"
  shows "f x \<le> f (last xs)"
proof -
  have ne: "xs \<noteq> []" using assms(2) by auto
  then have xs: "xs = butlast xs @ [last xs]" by simp
  have "sorted (map f (butlast xs @ [last xs]))" using assms(1) xs by simp
  then have "\<forall>y\<in>set (butlast xs). f y \<le> f (last xs)"
    by (simp add: sorted_append)
  moreover have "x \<in> set (butlast xs) \<or> x = last xs"
    using assms(2) xs by (metis Un_iff empty_iff insert_iff list.set(1) list.set(2) set_append)
  ultimately show ?thesis by auto
qed

lemma findPrevSnapshot_None:
  "findPrevSnapshot month snaps = None \<longleftrightarrow> (\<forall>q\<in>set snaps. \<not> ms_month q < month)"
proof -
  let ?L = "sort_key ms_month (filter (\<lambda>s. ms_month s < month) snaps)"
  have "findPrevSnapshot month snaps = None \<longleftrightarrow> rev ?L = []"
    unfolding findPrevSnapshot_def by (cases "rev ?L") simp_all
  also have "\<dots> \<longleftrightarrow> filter (\<lambda>s. ms_month s < month) snaps = []"
    by (metis length_0_conv length_sort rev_is_Nil_conv)
  finally show ?thesis by (simp add: filter_empty_conv)
qed

lemma findPrevSnapshot_Some:
  assumes "findPrevSnapshot month snaps = Some p"
  shows "latest_before month snaps p"
proof -
  let ?F = "filter (\<lambda>s. ms_month s < month) snaps"
  let ?L = "sort_key ms_month ?F"
  have ne: "?L \<noteq> []"
    using assms unfolding findPrevSnapshot_def by (cases "rev ?L") auto
  have "Some p = Some (hd (rev ?L))"
    using assms unfolding findPrevSnapshot_def by (cases "rev ?L") simp_all
  then have p: "p = last ?L"
    using ne by (simp add: hd_rev)
  have "last ?L \<in> set ?L" using ne by (rule last_in_set)
  then have pin: "p \<in> set ?F" unfolding p by simp
  have mx: "ms_month q \<le> ms_month p" if "q \<in> set ?F" for q
  proof -
    have "sorted (map ms_month ?L)" by (rule sorted_sort_key)
    moreover have "q \<in> set ?L" using that by simp
    ultimately show ?thesis unfolding p by (rule sorted_last_max)
  qed
  show ?thesis unfolding latest_before_def using pin mx by auto
qed

lemma latest_before_unique:
  assumes "distinct (map ms_month snaps)"
    and "latest_before month snaps p" and "latest_before month snaps q"
  shows "p = q"
proof -
  have "ms_month p \<le> ms_month q" "ms_month q \<le> ms_month p"
    using assms(2,3) unfolding latest_before_def by auto
  then have "ms_month p = ms_month q" by simp
  moreover have "inj_on ms_month (set snaps)" using assms(1) by (simp add: distinct_map)
  moreover have "p \<in> set snaps" "q \<in> set snaps"
    using assms(2,3) unfolding latest_before_def by auto
  ultimately show ?thesis by (auto dest: inj_onD)
qed

lemma fold_rank_map_absent:
  "x \<notin> set (map e_chefId es) \<Longrightarrow>
     fold (\<lambda>entry m. m(e_chefId entry \<mapsto> e_rank entry)) es m0 x = m0 x"
  by (induction es arbitrary: m0) auto

lemma fold_rank_map_present:
  "distinct (map e_chefId es) \<Longrightarrow> pe \<in> set es \<Longrightarrow>
     fold (\<lambda>entry m. m(e_chefId entry \<mapsto> e_rank entry)) es m0 (e_chefId pe) = Some (e_rank pe)"
proof (induction es arbitrary: m0)
  case Nil
  then show ?case by simp
next
  case (Cons a es)
  show ?case
  proof (cases "pe = a")
    case True
    have "e_chefId a \<notin> set (map e_chefId es)" using Cons.prems(1) by simp
    then have "fold (\<lambda>entry m. m(e_chefId entry \<mapsto> e_rank entry)) es
        (m0(e_chefId a \<mapsto> e_rank a)) (e_chefId a) = (m0(e_chefId a \<mapsto> e_rank a)) (e_chefId a)"
      by (rule fold_rank_map_absent)
    then have "fold (\<lambda>entry m. m(e_chefId entry \<mapsto> e_rank entry)) es
        (m0(e_chefId a \<mapsto> e_rank a)) (e_chefId a) = Some (e_rank a)"
      by simp
    then show ?thesis unfolding True by (simp only: fold_simps)
  next
    case False
    then show ?thesis using Cons.prems Cons.IH by simp
  qed
qed

lemma entries_of_distinct:
  assumes "entries_unique d"
  shows "distinct (map e_chefId (entries_of sid (snapshotEntries d)))"
proof -
  have "distinct (map (\<lambda>e. (e_snapshotId e, e_chefId e)) (entries_of sid (snapshotEntries d)))"
    using assms unfolding entries_unique_def entries_of_def by (rule distinct_map_filter)
  moreover have "map (\<lambda>e. (e_snapshotId e, e_chefId e)) (entries_of sid (snapshotEntries d))
      = map (\<lambda>c. (sid, c)) (map e_chefId (entries_of sid (snapshotEntries d)))"
    by (simp add: entries_of_def)
  ultimately show ?thesis by (metis distinct_map)
qed

lemma prevRankMap_present:
  assumes "entries_unique d" and "pe \<in> set (entries_of (ms_id p) (snapshotEntries d))"
  shows "prevRankMap (Some p) (snapshotEntries d) (e_chefId pe) = Some (e_rank pe)"
  unfolding prevRankMap_def
  using fold_rank_map_present [OF entries_of_distinct [OF assms(1)] assms(2)] by simp

lemma prevRankMap_absent:
  assumes "\<forall>pe\<in>set (entries_of (ms_id p) (snapshotEntries d)). e_chefId pe \<noteq> x"
  shows "prevRankMap (Some p) (snapshotEntries d) x = None"
proof -
  have "x \<notin> set (map e_chefId (entries_of (ms_id p) (snapshotEntries d)))"
    using assms by auto
  then show ?thesis unfolding prevRankMap_def by (simp add: fold_rank_map_absent)
qed

lemma snapshot_upsert_succeeds:
  assumes "month \<in> set (map ms_month snaps) \<or> cuid \<notin> set (map ms_id snaps)"
  shows "\<exists>snap snaps'. snapshot_upsert now cuid month notes snaps = Inr (snap, snaps')"
proof (cases "find (\<lambda>s. ms_month s = month) snaps")
  case None
  then have "month \<notin> set (map ms_month snaps)"
    by (auto simp: find_None_iff)
  then have "cuid \<notin> set (map ms_id snaps)" using assms by simp
  then show ?thesis using snapshot_upsert_new [OF None] by blast
next
  case (Some s0)
  then show ?thesis using snapshot_upsert_existing by blast
qed

lemma delta_with_prior:
  assumes su: "snapshots_unique d" and eu: "entries_unique d" and rp: "entry_ranks_positive d"
    and lb: "latest_before month (monthlySnapshots d) p"
    and pe: "pe \<in> set (entries_of (ms_id p) (snapshotEntries d))"
    and r: "1 \<le> r"
  shows "snapshot_delta
           (prevRankMap (findPrevSnapshot month (monthlySnapshots d)) (snapshotEntries d) (e_chefId pe))
           (Some r) = Some (e_rank pe - r)"
proof -
  have "findPrevSnapshot month (monthlySnapshots d) \<noteq> None"
    using lb unfolding findPrevSnapshot_None latest_before_def by auto
  then obtain p0 where p0: "findPrevSnapshot month (monthlySnapshots d) = Some p0" by auto
  have "p0 = p"
    using su latest_before_unique [OF _ findPrevSnapshot_Some [OF p0] lb]
    unfolding snapshots_unique_def by simp
  then have m: "prevRankMap (findPrevSnapshot month (monthlySnapshots d)) (snapshotEntries d)
      (e_chefId pe) = Some (e_rank pe)"
    using prevRankMap_present [OF eu pe] p0 by simp
  have "pe \<in> set (snapshotEntries d)" using pe by (simp add: entries_of_def)
  then have "1 \<le> e_rank pe" using rp by (simp add: entry_ranks_positive_def list_all_iff)
  then show ?thesis using r unfolding m snapshot_delta_def by simp
qed

lemma delta_without_prior:
  assumes "\<forall>p. latest_before month (monthlySnapshots d) p \<longrightarrow>
             (\<forall>pe\<in>set (entries_of (ms_id p) (snapshotEntries d)). e_chefId pe \<noteq> x)"
  shows "snapshot_delta
           (prevRankMap (findPrevSnapshot month (monthlySnapshots d)) (snapshotEntries d) x) r = None"
proof (cases "findPrevSnapshot month (monthlySnapshots d)")
  case None
  then show ?thesis by (simp add: prevRankMap_def snapshot_delta_def)
next
  case (Some p0)
  have "\<forall>pe\<in>set (entries_of (ms_id p0) (snapshotEntries d)). e_chefId pe \<noteq> x"
    using assms findPrevSnapshot_Some [OF Some] by blast
  then have "prevRankMap (Some p0) (snapshotEntries d) x = None"
    by (rule prevRankMap_absent)
  then show ?thesis unfolding Some by (simp add: snapshot_delta_def)
qed

text \<open>
  Claim C3: on a store that satisfies its uniqueness constraints and whose stored ranks are
  at least 1, \<open>createMonthlySnapshot\<close> succeeds (the generated id being new when the month
  has no row yet) and writes one entry per non-archived chef, carrying the chef's current
  rank; if the immediately preceding snapshot (the latest with a smaller month) has an
  entry for the chef, the delta is that entry's rank minus the current rank; if there is no
  preceding snapshot, or it has no entry for the chef, the delta is null.
\<close>

theorem snapshot_delta_convention:
  assumes u: "chef_ids_unique d" and su: "snapshots_unique d" and eu: "entries_unique d"
    and rp: "entry_ranks_positive d"
    and fresh: "month \<in> set (map ms_month (monthlySnapshots d))
                \<or> cuid \<notin> set (map ms_id (monthlySnapshots d))"
  shows "\<exists>sid d'. createMonthlySnapshot now cuid month memo d = Inr (sid, d')
     \<and> map e_chefId (entries_of sid (snapshotEntries d')) = map chef_id (chefs_by_rank d')
     \<and> (\<forall>e\<in>set (entries_of sid (snapshotEntries d')).
           (\<exists>c\<in>set (active_chefs d'). chef_id c = e_chefId e \<and> chef_rank c = Some (e_rank e))
         \<and> (\<forall>p pe. latest_before month (monthlySnapshots d) p
                \<and> pe \<in> set (entries_of (ms_id p) (snapshotEntries d))
                \<and> e_chefId pe = e_chefId e
              \<longrightarrow> e_delta e = Some (e_rank pe - e_rank e))
         \<and> ((\<forall>p. latest_before month (monthlySnapshots d) p \<longrightarrow>
                (\<forall>pe\<in>set (entries_of (ms_id p) (snapshotEntries d)). e_chefId pe \<noteq> e_chefId e))
              \<longrightarrow> e_delta e = None))"
proof -
  obtain snap snaps where
    up: "snapshot_upsert now cuid month memo (monthlySnapshots d) = Inr (snap, snaps)"
    using snapshot_upsert_succeeds [OF fresh] by blast
  let ?d1 = "ranked_db now d"
  let ?prm = "prevRankMap (findPrevSnapshot month (monthlySnapshots d)) (snapshotEntries d)"
  let ?es = "filter (\<lambda>e. e_snapshotId e \<noteq> ms_id snap) (snapshotEntries d)
          @ map (entry_for now (getWeights d) ?prm (ms_id snap)) (chefs_by_rank ?d1)"
  let ?d' = "?d1\<lparr>monthlySnapshots := snaps, snapshotEntries := ?es\<rparr>"
  have 1: "createMonthlySnapshot now cuid month memo d = Inr (ms_id snap, ?d')"
    by (rule createMonthlySnapshot_eq [OF u up])
  have cbr: "chefs_by_rank ?d' = chefs_by_rank ?d1"
    and act: "active_chefs ?d' = active_chefs ?d1"
    by (simp_all add: chefs_by_rank_def active_chefs_def)
  have ents: "entries_of (ms_id snap) (snapshotEntries ?d')
      = map (entry_for now (getWeights d) ?prm (ms_id snap)) (chefs_by_rank ?d1)"
    by (simp add: entries_of_written)
  have 2: "map e_chefId (entries_of (ms_id snap) (snapshotEntries ?d')) = map chef_id (chefs_by_rank ?d')"
    unfolding ents cbr by (simp add: comp_def entry_for_def)
  have 3: "\<forall>e\<in>set (entries_of (ms_id snap) (snapshotEntries ?d')).
           (\<exists>c\<in>set (active_chefs ?d'). chef_id c = e_chefId e \<and> chef_rank c = Some (e_rank e))
         \<and> (\<forall>p pe. latest_before month (monthlySnapshots d) p
                \<and> pe \<in> set (entries_of (ms_id p) (snapshotEntries d))
                \<and> e_chefId pe = e_chefId e
              \<longrightarrow> e_delta e = Some (e_rank pe - e_rank e))
         \<and> ((\<forall>p. latest_before month (monthlySnapshots d) p \<longrightarrow>
                (\<forall>pe\<in>set (entries_of (ms_id p) (snapshotEntries d)). e_chefId pe \<noteq> e_chefId e))
              \<longrightarrow> e_delta e = None)"
  proof
    fix e
    assume "e \<in> set (entries_of (ms_id snap) (snapshotEntries ?d'))"
    then obtain c where c: "c \<in> set (active_chefs ?d1)"
      and e: "e = entry_for now (getWeights d) ?prm (ms_id snap) c"
      unfolding ents by (auto simp: chefs_by_rank_set)
    obtain r where r: "chef_rank c = Some r" "1 \<le> r"
      using ranked_db_ranks [OF u c] by blast
    have id: "e_chefId e = chef_id c" and rk: "e_rank e = r"
      and dl: "e_delta e = snapshot_delta (?prm (chef_id c)) (Some r)"
      unfolding e by (simp_all add: entry_for_def r)
    have a: "\<exists>c\<in>set (active_chefs ?d'). chef_id c = e_chefId e \<and> chef_rank c = Some (e_rank e)"
      unfolding act using c id rk r(1) by auto
    have b: "\<forall>p pe. latest_before month (monthlySnapshots d) p
                \<and> pe \<in> set (entries_of (ms_id p) (snapshotEntries d))
                \<and> e_chefId pe = e_chefId e
              \<longrightarrow> e_delta e = Some (e_rank pe - e_rank e)"
    proof (intro allI impI, elim conjE)
      fix p pe
      assume lb: "latest_before month (monthlySnapshots d) p"
        and pe: "pe \<in> set (entries_of (ms_id p) (snapshotEntries d))"
        and same: "e_chefId pe = e_chefId e"
      show "e_delta e = Some (e_rank pe - e_rank e)"
        using delta_with_prior [OF su eu rp lb pe r(2)] unfolding dl rk same id by simp
    qed
    have c': "(\<forall>p. latest_before month (monthlySnapshots d) p \<longrightarrow>
                (\<forall>pe\<in>set (entries_of (ms_id p) (snapshotEntries d)). e_chefId pe \<noteq> e_chefId e))
              \<longrightarrow> e_delta e = None"
      unfolding dl id by (intro impI) (rule delta_without_prior)
    from a b c' show "(\<exists>c\<in>set (active_chefs ?d'). chef_id c = e_chefId e \<and> chef_rank c = Some (e_rank e))
         \<and> (\<forall>p pe. latest_before month (monthlySnapshots d) p
                \<and> pe \<in> set (entries_of (ms_id p) (snapshotEntries d))
                \<and> e_chefId pe = e_chefId e
              \<longrightarrow> e_delta e = Some (e_rank pe - e_rank e))
         \<and> ((\<forall>p. latest_before month (monthlySnapshots d) p \<longrightarrow>
                (\<forall>pe\<in>set (entries_of (ms_id p) (snapshotEntries d)). e_chefId pe \<noteq> e_chefId e))
              \<longrightarrow> e_delta e = None)"
      by blast
  qed
  from 1 2 3 show ?thesis by blast
qed

text \<open>
  The witness publishes February 2026 after January 2026 and the roster change: \<open>b\<close> keeps
  rank 1 (delta 0), \<open>d\<close> goes from 3 to 2 (delta 1), and the new chef \<open>e\<close> has no delta.
\<close>

theorem snapshot_delta_convention_witness:
  "chef_ids_unique changed_db \<and> snapshots_unique changed_db \<and> entries_unique changed_db
   \<and> entry_ranks_positive changed_db
   \<and> ''s2'' \<notin> set (map ms_id (monthlySnapshots changed_db))
   \<and> latest_before ''2026-02'' (monthlySnapshots changed_db) first_snapshot
   \<and> (\<exists>sid d'. createMonthlySnapshot sample_clock ''s2'' ''2026-02'' None changed_db = Inr (sid, d')
     \<and> map e_chefId (entries_of sid (snapshotEntries d')) = map chef_id (chefs_by_rank d')
     \<and> (\<forall>e\<in>set (entries_of sid (snapshotEntries d')).
           (\<exists>c\<in>set (active_chefs d'). chef_id c = e_chefId e \<and> chef_rank c = Some (e_rank e))
         \<and> (\<forall>p pe. latest_before ''2026-02'' (monthlySnapshots changed_db) p
                \<and> pe \<in> set (entries_of (ms_id p) (snapshotEntries changed_db))
                \<and> e_chefId pe = e_chefId e
              \<longrightarrow> e_delta e = Some (e_rank pe - e_rank e))
         \<and> ((\<forall>p. latest_before ''2026-02'' (monthlySnapshots changed_db) p \<longrightarrow>
                (\<forall>pe\<in>set (entries_of (ms_id p) (snapshotEntries changed_db)).
                   e_chefId pe \<noteq> e_chefId e))
              \<longrightarrow> e_delta e = None)))
   \<and> map (\<lambda>e. (e_chefId e, e_rank e, e_delta e)) (entries_of ''s2'' (snapshotEntries (snd (projr
         (createMonthlySnapshot sample_clock ''s2'' ''2026-02'' None changed_db)))))
       = [(''b'', 1, Some 0), (''d'', 2, Some 1), (''e'', 3, None)]"
proof -
  have u: "chef_ids_unique changed_db" by code_simp
  have su: "snapshots_unique changed_db" by code_simp
  have eu: "entries_unique changed_db" by code_simp
  have rp: "entry_ranks_positive changed_db" by code_simp
  have fr: "''s2'' \<notin> set (map ms_id (monthlySnapshots changed_db))" by code_simp
  have lb: "latest_before ''2026-02'' (monthlySnapshots changed_db) first_snapshot" by code_simp
  have res: "map (\<lambda>e. (e_chefId e, e_rank e, e_delta e)) (entries_of ''s2'' (snapshotEntries (snd (projr
         (createMonthlySnapshot sample_clock ''s2'' ''2026-02'' None changed_db)))))
       = [(''b'', 1, Some 0), (''d'', 2, Some 1), (''e'', 3, None)]"
    by code_simp
  have fresh: "''2026-02'' \<in> set (map ms_month (monthlySnapshots changed_db))
      \<or> ''s2'' \<notin> set (map ms_id (monthlySnapshots changed_db))"
    using fr by simp
  show ?thesis
    using u su eu rp fr lb res
      snapshot_delta_convention [OF u su eu rp fresh, where now = sample_clock and memo = None]
    by blast
qed

subsection \<open>Invariants of the store are preserved\<close>

lemma snapshot_upsert_unique:
  assumes ids: "distinct (map ms_id snaps)" and months: "distinct (map ms_month snaps)"
    and up: "snapshot_upsert now cuid month memo snaps = Inr (snap, snaps')"
  shows "distinct (map ms_id snaps') \<and> distinct (map ms_month snaps')"
proof (cases "find (\<lambda>s. ms_month s = month) snaps")
  case None
  then have fresh_month: "month \<notin> set (map ms_month snaps)"
    by (auto simp: find_None_iff)
  have fresh_id: "cuid \<notin> set (map ms_id snaps)"
    using up None by (auto simp: snapshot_upsert_def split: if_splits)
  have "snaps @ [\<lparr>ms_id = cuid, ms_month = month,
      ms_publishedAt = Some (clk_time now), ms_notes = memo\<rparr>] = snaps'"
    using up unfolding snapshot_upsert_new [OF None fresh_id] by auto
  then have "snaps' = snaps @ [\<lparr>ms_id = cuid, ms_month = month,
      ms_publishedAt = Some (clk_time now), ms_notes = memo\<rparr>]"
    by (rule sym)
  then show ?thesis using ids months fresh_month fresh_id by simp
next
  case (Some s0)
  let ?s' = "s0\<lparr>ms_publishedAt := Some (clk_time now),
                 ms_notes := (case memo of None \<Rightarrow> ms_notes s0 | Some n \<Rightarrow> Some n)\<rparr>"
  have s0: "s0 \<in> set snaps" using Some by (auto simp: find_Some_iff)
  have "map (\<lambda>t. if ms_id t = ms_id s0 then ?s' else t) snaps = snaps'"
    using up unfolding snapshot_upsert_existing [OF Some] by auto
  then have eq: "snaps' = map (\<lambda>t. if ms_id t = ms_id s0 then ?s' else t) snaps"
    by (rule sym)
  have "map ms_id snaps' = map ms_id snaps" unfolding eq by auto
  moreover have "map ms_month snaps' = map ms_month snaps"
    unfolding eq using ids s0 by (intro months_after_update) simp_all
  ultimately show ?thesis using ids months by simp
qed

lemma written_entries_unique:
  assumes old: "distinct (map (\<lambda>e. (e_snapshotId e, e_chefId e)) es)"
    and ids: "distinct (map chef_id cs)"
  shows "distinct (map (\<lambda>e. (e_snapshotId e, e_chefId e))
           (filter (\<lambda>e. e_snapshotId e \<noteq> sid) es @ map (entry_for now w prm sid) cs))"
proof -
  have kept: "distinct (map (\<lambda>e. (e_snapshotId e, e_chefId e)) (filter (\<lambda>e. e_snapshotId e \<noteq> sid) es))"
    using old by (rule distinct_map_filter)
  have new_eq: "map (\<lambda>e. (e_snapshotId e, e_chefId e)) (map (entry_for now w prm sid) cs)
      = map (\<lambda>c. (sid, c)) (map chef_id cs)"
    by (simp add: entry_for_def)
  have new: "distinct (map (\<lambda>e. (e_snapshotId e, e_chefId e)) (map (entry_for now w prm sid) cs))"
    unfolding new_eq using ids by (simp add: distinct_map inj_on_def)
  have disj: "set (map (\<lambda>e. (e_snapshotId e, e_chefId e)) (filter (\<lambda>e. e_snapshotId e \<noteq> sid) es))
      \<inter> set (map (\<lambda>e. (e_snapshotId e, e_chefId e)) (map (entry_for now w prm sid) cs)) = {}"
    unfolding new_eq by auto
  show ?thesis
    unfolding map_append distinct_append using kept new disj by blast
qed

text \<open>
  The four invariants assumed above are kept by every successful \<open>createMonthlySnapshot\<close>.
\<close>

lemma createMonthlySnapshot_preserves_invariants:
  assumes u: "chef_ids_unique d" and su: "snapshots_unique d" and eu: "entries_unique d"
    and rp: "entry_ranks_positive d"
    and ok: "createMonthlySnapshot now cuid month memo d = Inr (sid, d')"
  shows "chef_ids_unique d' \<and> snapshots_unique d' \<and> entries_unique d' \<and> entry_ranks_positive d'"
proof -
  have r: "recalculateAllScores now d = Inr (ranked_db now d)"
    unfolding ranked_db_def by (rule recalculateAllScores_eq)
  obtain snap snaps where
    up: "snapshot_upsert now cuid month memo (monthlySnapshots d) = Inr (snap, snaps)"
    using ok unfolding createMonthlySnapshot_def
    by (cases "snapshot_upsert now cuid month memo (monthlySnapshots d)")
       (auto simp: r Let_def)
  let ?d1 = "ranked_db now d"
  let ?prm = "prevRankMap (findPrevSnapshot month (monthlySnapshots d)) (snapshotEntries d)"
  let ?new = "map (entry_for now (getWeights d) ?prm (ms_id snap)) (chefs_by_rank ?d1)"
  let ?es = "filter (\<lambda>e. e_snapshotId e \<noteq> ms_id snap) (snapshotEntries d) @ ?new"
  have "?d1\<lparr>monthlySnapshots := snaps, snapshotEntries := ?es\<rparr> = d'"
    using ok unfolding createMonthlySnapshot_eq [OF u up] by auto
  then have d': "d' = ?d1\<lparr>monthlySnapshots := snaps, snapshotEntries := ?es\<rparr>"
    by (rule sym)
  have 1: "chef_ids_unique d'"
    using u unfolding d' chef_ids_unique_def ranked_db_def by (simp add: comp_def rank_rows_fields)
  have 2: "snapshots_unique d'"
    using su snapshot_upsert_unique [OF _ _ up] unfolding d' snapshots_unique_def by simp
  have ids: "distinct (map chef_id (chefs_by_rank ?d1))"
    by (rule chefs_by_rank_distinct [OF ranked_db_ids [OF u]])
  have 3: "entries_unique d'"
    using written_entries_unique [OF _ ids] eu unfolding d' entries_unique_def by simp
  have "\<forall>c\<in>set (chefs_by_rank ?d1). 1 \<le> the (chef_rank c)"
    using ranked_db_ranks [OF u] unfolding chefs_by_rank_set by fastforce
  then have "list_all (\<lambda>e. 1 \<le> e_rank e) ?new"
    by (simp add: list_all_iff entry_for_def)
  then have 4: "entry_ranks_positive d'"
    using rp unfolding d' entry_ranks_positive_def by (auto simp: list_all_iff)
  from 1 2 3 4 show ?thesis by blast
qed

end
